theory Spec2Isabelle
  imports Complex_Main "HOL-Library.Word" "HOL-Library.Log_Nat"
begin

section \<open>Data model\<close>

text \<open>
  A pixel buffer (\<open>ProcessingImageData\<close> in \<open>types.ts\<close>) is a record of a width, a
  height and a \<open>Uint8ClampedArray\<close> of interleaved RGBA bytes. The bytes are
  \<open>8 word\<close>; the dimensions are natural numbers. A JavaScript number is a real.
  In the dithering functions, in \<open>extractContours\<close> and in \<open>applyMask\<close> the
  arithmetic is that of binary64: every operation of the source is the operation on
  the reals followed by the rounding \<open>fl64\<close> defined below, and a store into a
  \<open>Float32Array\<close> rounds once more, to binary32. The tonal adjustments and the
  Canny detector are written with the operations on the reals. NaN and the
  infinities are not values of the model, so a result beyond the largest binary64
  number stays a finite real.
\<close>

type_synonym u8 = "8 word"

record ProcessingImageData =
  width :: nat
  height :: nat
  data :: "u8 list"

text \<open>The invariant of the data model: \<open>data.length == width * height * 4\<close>.\<close>

definition wellFormed :: "ProcessingImageData \<Rightarrow> bool" where
  "wellFormed imageData \<longleftrightarrow>
     length (data imageData) = width imageData * height imageData * 4"

text \<open>Reading a byte as a JavaScript number.\<close>

definition num :: "u8 \<Rightarrow> real" where
  "num b = real (unat b)"

subsection \<open>Stores into typed arrays\<close>

text \<open>
  A store into a \<open>Uint8ClampedArray\<close> clamps the number to \<open>[0, 255]\<close> and rounds
  it to the nearest integer, a tie going to the even one. A store into a
  \<open>Uint8Array\<close> truncates towards zero and wraps modulo 256.
\<close>

definition roundHalfEven :: "real \<Rightarrow> int" where
  "roundHalfEven v =
     (let f = \<lfloor>v\<rfloor> in
      if v - of_int f < 1 / 2 then f
      else if v - of_int f > 1 / 2 then f + 1
      else if even f then f else f + 1)"

definition toUint8Clamp :: "real \<Rightarrow> u8" where
  "toUint8Clamp v =
     (if v \<le> 0 then 0 else if v \<ge> 255 then 255 else of_int (roundHalfEven v))"

definition mathTrunc :: "real \<Rightarrow> int" where
  "mathTrunc v = (if v < 0 then \<lceil>v\<rceil> else \<lfloor>v\<rfloor>)"

definition toUint8 :: "real \<Rightarrow> u8" where
  "toUint8 v = of_int (mathTrunc v)"

text \<open>\<open>Math.round\<close> rounds a tie upwards.\<close>

definition mathRound :: "real \<Rightarrow> int" where
  "mathRound v = \<lfloor>v + 1 / 2\<rfloor>"

subsection \<open>Binary floating-point numbers\<close>

text \<open>
  The exponent of a real \<open>x \<noteq> 0\<close> is the integer \<open>e\<close> for which \<open>|x|\<close> is at least
  \<open>2 powi e\<close> and less than \<open>2 powi (e + 1)\<close>, computed from the number of bits of
  the integer part of \<open>|x|\<close> or of \<open>1 / |x|\<close>. A format with \<open>p\<close> bits of precision
  and least exponent \<open>emin\<close> has, around \<open>x\<close>, the multiples of \<open>2\<close> to the power
  \<open>max e emin - p + 1\<close>; rounding takes the nearest of them, and of two equally near
  ones the even multiple. Below the exponent \<open>emin\<close> these are the subnormal
  numbers.
\<close>

definition exponentOf :: "real \<Rightarrow> int" where
  "exponentOf x =
     (if 1 \<le> \<bar>x\<bar> then bitlen \<lfloor>\<bar>x\<bar>\<rfloor> - 1 else - bitlen (\<lceil>1 / \<bar>x\<bar>\<rceil> - 1))"

definition roundTo :: "nat \<Rightarrow> int \<Rightarrow> real \<Rightarrow> real" where
  "roundTo p emin x =
     (if x = 0 then 0
      else (let q = 2 powi (max (exponentOf x) emin - int p + 1)
            in of_int (roundHalfEven (x / q)) * q))"

text \<open>
  The result of an arithmetic operation or of a decimal literal, in binary64; and
  \<open>Math.fround\<close>, the rounding of a store into a \<open>Float32Array\<close>, in binary32.
\<close>

definition fl64 :: "real \<Rightarrow> real" where
  "fl64 = roundTo 53 (- 1022)"

definition fround :: "real \<Rightarrow> real" where
  "fround = roundTo 24 (- 126)"

section \<open>Alpha-aware gray (\<open>alpha.ts\<close>, and its copy in \<open>dithering.ts\<close>)\<close>

text \<open>
  \<open>getGrayOnWhite\<close> is the function over the reals, the value its formula denotes;
  \<open>getGrayOnWhite64\<close> is the same function as binary64 computes it, which is what
  a comparison of the gray with a threshold sees. The copy \<open>getGray\<close> in
  \<open>dithering.ts\<close> is in binary64.
\<close>

definition getGrayOnWhite :: "u8 list \<Rightarrow> nat \<Rightarrow> real" where
  "getGrayOnWhite d idx =
     (let a = d ! (idx + 3) in
      if a = 0 then 255
      else if a < 255 then
        (let alpha = num a / 255;
             r = num (d ! idx) * alpha + 255 * (1 - alpha);
             g = num (d ! (idx + 1)) * alpha + 255 * (1 - alpha);
             b = num (d ! (idx + 2)) * alpha + 255 * (1 - alpha)
         in 0.299 * r + 0.587 * g + 0.114 * b)
      else 0.299 * num (d ! idx) + 0.587 * num (d ! (idx + 1)) + 0.114 * num (d ! (idx + 2)))"

definition getGrayOnWhite64 :: "u8 list \<Rightarrow> nat \<Rightarrow> real" where
  "getGrayOnWhite64 d idx =
     (let a = d ! (idx + 3) in
      if a = 0 then 255
      else if a < 255 then
        (let alpha = fl64 (num a / 255);
             r = fl64 (fl64 (num (d ! idx) * alpha) + fl64 (255 * fl64 (1 - alpha)));
             g = fl64 (fl64 (num (d ! (idx + 1)) * alpha) + fl64 (255 * fl64 (1 - alpha)));
             b = fl64 (fl64 (num (d ! (idx + 2)) * alpha) + fl64 (255 * fl64 (1 - alpha)))
         in fl64 (fl64 (fl64 (fl64 0.299 * r) + fl64 (fl64 0.587 * g)) + fl64 (fl64 0.114 * b)))
      else fl64 (fl64 (fl64 (fl64 0.299 * num (d ! idx)) + fl64 (fl64 0.587 * num (d ! (idx + 1))))
                 + fl64 (fl64 0.114 * num (d ! (idx + 2)))))"

definition getGray :: "u8 list \<Rightarrow> nat \<Rightarrow> real" where
  "getGray d idx =
     (let a = d ! (idx + 3) in
      if a = 0 then 255
      else if a < 255 then
        (let alpha = fl64 (num a / 255);
             r = fl64 (fl64 (num (d ! idx) * alpha) + fl64 (255 * fl64 (1 - alpha)));
             g = fl64 (fl64 (num (d ! (idx + 1)) * alpha) + fl64 (255 * fl64 (1 - alpha)));
             b = fl64 (fl64 (num (d ! (idx + 2)) * alpha) + fl64 (255 * fl64 (1 - alpha)))
         in fl64 (fl64 (fl64 (fl64 0.299 * r) + fl64 (fl64 0.587 * g)) + fl64 (fl64 0.114 * b)))
      else fl64 (fl64 (fl64 (fl64 0.299 * num (d ! idx)) + fl64 (fl64 0.587 * num (d ! (idx + 1))))
                 + fl64 (fl64 0.114 * num (d ! (idx + 2)))))"

section \<open>Dithering (\<open>dithering.ts\<close>)\<close>

definition setPixel :: "u8 list \<Rightarrow> nat \<Rightarrow> real \<Rightarrow> u8 list" where
  "setPixel d idx v =
     d[idx := toUint8Clamp v, idx + 1 := toUint8Clamp v, idx + 2 := toUint8Clamp v]"

text \<open>
  \<open>errors[i] += v\<close> on the accumulator, a \<open>Float32Array\<close>: the sum is a binary64
  number and the store rounds it to binary32.
\<close>

definition addAt :: "real list \<Rightarrow> nat \<Rightarrow> real \<Rightarrow> real list" where
  "addAt errors i v = errors[i := fround (fl64 (errors ! i + v))]"

text \<open>
  The seven error-diffusion functions share their loop word for word: the
  accumulator, a \<open>Float32Array\<close>, is seeded with the gray of every pixel, then the
  pixels are visited row by row; each is quantised against 128, written to the result together with
  the input's alpha, and its quantisation error is handed to the function's own
  distribution step. The distribution step takes the width, the height, the
  position, the error and the accumulator.
\<close>

type_synonym distribution = "nat \<Rightarrow> nat \<Rightarrow> nat \<Rightarrow> nat \<Rightarrow> real \<Rightarrow> real list \<Rightarrow> real list"

definition diffusePixel ::
  "distribution \<Rightarrow> nat \<Rightarrow> nat \<Rightarrow> u8 list \<Rightarrow> nat \<Rightarrow> nat \<Rightarrow>
   real list \<times> u8 list \<Rightarrow> real list \<times> u8 list" where
  "diffusePixel distribute w h d x y st =
     (let errors = fst st; result = snd st;
          idx = y * w + x;
          oldPixel = errors ! idx;
          newPixel = (if oldPixel < 128 then 0 else 255);
          quantError = fl64 (oldPixel - newPixel);
          result = setPixel result (idx * 4) newPixel;
          result = result[idx * 4 + 3 := d ! (idx * 4 + 3)]
      in (distribute w h x y quantError errors, result))"

definition errorDiffusion :: "distribution \<Rightarrow> ProcessingImageData \<Rightarrow> ProcessingImageData" where
  "errorDiffusion distribute imageData =
     (let w = width imageData; h = height imageData; d = data imageData;
          errors = map (\<lambda>i. fround (getGray d (i * 4))) [0..<w * h];
          final = fold (\<lambda>y. fold (\<lambda>x. diffusePixel distribute w h d x y) [0..<w]) [0..<h]
                    (errors, d)
      in \<lparr>width = w, height = h, data = snd final\<rparr>)"

subsection \<open>Floyd-Steinberg\<close>

definition fsDistribute :: distribution where
  "fsDistribute w h x y quantError errors =
     (let idx = y * w + x;
          errors = (if x + 1 < w
                    then addAt errors (idx + 1) (fl64 (fl64 (quantError * 7) / 16))
                    else errors)
      in if y + 1 < h then
           (let errors = (if x > 0
                          then addAt errors (idx + w - 1) (fl64 (fl64 (quantError * 3) / 16))
                          else errors);
                errors = addAt errors (idx + w) (fl64 (fl64 (quantError * 5) / 16))
            in if x + 1 < w
               then addAt errors (idx + w + 1) (fl64 (fl64 (quantError * 1) / 16))
               else errors)
         else errors)"

definition floydSteinberg :: "ProcessingImageData \<Rightarrow> ProcessingImageData" where
  "floydSteinberg = errorDiffusion fsDistribute"

subsection \<open>Kernel-driven variants\<close>

text \<open>
  Jarvis-Judice-Ninke, Stucki, Sierra and Sierra two-row walk a kernel of rows of
  five weights centred on the pixel; a target is written when it is inside the
  image and lies after the pixel in scan order.
\<close>

definition kernelDistribute :: "real list list \<Rightarrow> real \<Rightarrow> distribution" where
  "kernelDistribute kernelRows divisor w h x y quantError errors =
     fold (\<lambda>ky. fold (\<lambda>kx errors.
         (let nx = int x + int kx - 2; ny = y + ky in
          if nx \<ge> 0 \<and> nx < int w \<and> ny < h \<and> (ky > 0 \<or> kx > 2)
          then addAt errors (nat (int ny * int w + nx))
                 (fl64 (fl64 (quantError * (kernelRows ! ky ! kx)) / divisor))
          else errors)) [0..<5]) [0..<length kernelRows] errors"

definition jarvisJudiceNinke :: "ProcessingImageData \<Rightarrow> ProcessingImageData" where
  "jarvisJudiceNinke =
     errorDiffusion (kernelDistribute [ [0, 0, 0, 7, 5], [3, 5, 7, 5, 3], [1, 3, 5, 3, 1]] 48)"

definition stucki :: "ProcessingImageData \<Rightarrow> ProcessingImageData" where
  "stucki =
     errorDiffusion (kernelDistribute [ [0, 0, 0, 8, 4], [2, 4, 8, 4, 2], [1, 2, 4, 2, 1]] 42)"

definition sierra :: "ProcessingImageData \<Rightarrow> ProcessingImageData" where
  "sierra =
     errorDiffusion (kernelDistribute [ [0, 0, 0, 5, 3], [2, 4, 5, 4, 2], [0, 2, 3, 2, 0]] 32)"

definition sierraTwoRow :: "ProcessingImageData \<Rightarrow> ProcessingImageData" where
  "sierraTwoRow =
     errorDiffusion (kernelDistribute [ [0, 0, 0, 4, 3], [1, 2, 3, 2, 1]] 16)"

subsection \<open>Atkinson\<close>

definition atkinsonDistribute :: distribution where
  "atkinsonDistribute w h x y quantError errors =
     (let idx = y * w + x;
          errors = (if x + 1 < w
                    then addAt errors (idx + 1) (fl64 (fl64 (quantError * 1) / 8))
                    else errors);
          errors = (if x + 2 < w
                    then addAt errors (idx + 2) (fl64 (fl64 (quantError * 1) / 8))
                    else errors);
          errors = (if y + 1 < h then
                      (let errors = (if x > 0
                                     then addAt errors (idx + w - 1)
                                            (fl64 (fl64 (quantError * 1) / 8))
                                     else errors);
                           errors = addAt errors (idx + w) (fl64 (fl64 (quantError * 1) / 8))
                       in if x + 1 < w
                          then addAt errors (idx + w + 1) (fl64 (fl64 (quantError * 1) / 8))
                          else errors)
                    else errors)
      in if y + 2 < h
         then addAt errors (idx + w * 2) (fl64 (fl64 (quantError * 1) / 8))
         else errors)"

definition atkinson :: "ProcessingImageData \<Rightarrow> ProcessingImageData" where
  "atkinson = errorDiffusion atkinsonDistribute"

subsection \<open>Burkes\<close>

text \<open>The local closure \<open>distribute(dx, dy, factor)\<close>.\<close>

definition burkesTarget ::
  "nat \<Rightarrow> nat \<Rightarrow> nat \<Rightarrow> nat \<Rightarrow> real \<Rightarrow> int \<Rightarrow> int \<Rightarrow> real \<Rightarrow> real list \<Rightarrow> real list" where
  "burkesTarget w h x y quantError dx dy factor errors =
     (let nx = int x + dx; ny = int y + dy in
      if nx \<ge> 0 \<and> nx < int w \<and> ny \<ge> 0 \<and> ny < int h
      then addAt errors (nat (ny * int w + nx)) (fl64 (fl64 (quantError * factor) / 32))
      else errors)"

definition burkesDistribute :: distribution where
  "burkesDistribute w h x y quantError errors =
     (let t = burkesTarget w h x y quantError;
          errors = t 1 0 8 errors;
          errors = t 2 0 4 errors;
          errors = t (-2) 1 2 errors;
          errors = t (-1) 1 4 errors;
          errors = t 0 1 8 errors;
          errors = t 1 1 4 errors
      in t 2 1 2 errors)"

definition burkes :: "ProcessingImageData \<Rightarrow> ProcessingImageData" where
  "burkes = errorDiffusion burkesDistribute"

subsection \<open>Ordered dithering\<close>

text \<open>
  The two Bayer functions differ in their matrix only: each pixel's gray is
  compared with the matrix entry at the position modulo the matrix size.
\<close>

definition orderedPixel ::
  "nat list list \<Rightarrow> nat \<Rightarrow> nat \<Rightarrow> u8 list \<Rightarrow> nat \<Rightarrow> nat \<Rightarrow> u8 list \<Rightarrow> u8 list" where
  "orderedPixel bayerMatrix msize w d x y result =
     (let idx = (y * w + x) * 4;
          gray = getGray d idx;
          threshold = bayerMatrix ! (y mod msize) ! (x mod msize);
          newPixel = (if gray > real threshold then 255 else 0);
          result = setPixel result idx newPixel
      in result[idx + 3 := d ! (idx + 3)])"

definition orderedDither :: "nat list list \<Rightarrow> nat \<Rightarrow> ProcessingImageData \<Rightarrow> ProcessingImageData" where
  "orderedDither bayerMatrix msize imageData =
     (let w = width imageData; h = height imageData; d = data imageData
      in \<lparr>width = w, height = h,
          data = fold (\<lambda>y. fold (\<lambda>x. orderedPixel bayerMatrix msize w d x y) [0..<w]) [0..<h] d\<rparr>)"

definition bayerMatrix8 :: "nat list list" where
  "bayerMatrix8 =
     [ [0, 128, 32, 160, 8, 136, 40, 168],
      [192, 64, 224, 96, 200, 72, 232, 104],
      [48, 176, 16, 144, 56, 184, 24, 152],
      [240, 112, 208, 80, 248, 120, 216, 88],
      [12, 140, 44, 172, 4, 132, 36, 164],
      [204, 76, 236, 108, 196, 68, 228, 100],
      [60, 188, 28, 156, 52, 180, 20, 148],
      [252, 124, 220, 92, 244, 116, 212, 84]]"

definition bayerMatrix4 :: "nat list list" where
  "bayerMatrix4 =
     [ [0, 136, 34, 170],
      [204, 68, 238, 102],
      [51, 187, 17, 153],
      [255, 119, 221, 85]]"

definition bayerOrdered :: "ProcessingImageData \<Rightarrow> ProcessingImageData" where
  "bayerOrdered = orderedDither bayerMatrix8 8"

definition bayerOrdered4x4 :: "ProcessingImageData \<Rightarrow> ProcessingImageData" where
  "bayerOrdered4x4 = orderedDither bayerMatrix4 4"

text \<open>The table \<open>ditheringAlgorithms\<close>.\<close>

datatype DitheringAlgorithm =
  FloydSteinberg | JarvisJudiceNinke | Stucki | Atkinson | Sierra | SierraTwoRow
  | Burkes | BayerOrdered | BayerOrdered4x4

fun ditheringAlgorithms :: "DitheringAlgorithm \<Rightarrow> ProcessingImageData \<Rightarrow> ProcessingImageData" where
  "ditheringAlgorithms FloydSteinberg = floydSteinberg"
| "ditheringAlgorithms JarvisJudiceNinke = jarvisJudiceNinke"
| "ditheringAlgorithms Stucki = stucki"
| "ditheringAlgorithms Atkinson = atkinson"
| "ditheringAlgorithms Sierra = sierra"
| "ditheringAlgorithms SierraTwoRow = sierraTwoRow"
| "ditheringAlgorithms Burkes = burkes"
| "ditheringAlgorithms BayerOrdered = bayerOrdered"
| "ditheringAlgorithms BayerOrdered4x4 = bayerOrdered4x4"

section \<open>Tonal adjustments (\<open>adjustments.ts\<close>)\<close>

text \<open>\<open>clamp(value, min, max)\<close>; the callers that leave the bounds out get 0 and 255.\<close>

definition clamp :: "real \<Rightarrow> real \<Rightarrow> real \<Rightarrow> real" where
  "clamp v lo hi = max lo (min hi v)"

text \<open>The counter of \<open>for (let i = 0; i < data.length; i += 4)\<close>.\<close>

definition pixelStarts :: "nat \<Rightarrow> nat list" where
  "pixelStarts n = map (\<lambda>k. k * 4) [0..<(n + 3) div 4]"

definition toGrayscale :: "ProcessingImageData \<Rightarrow> ProcessingImageData" where
  "toGrayscale imageData =
     (let d = data imageData in
      \<lparr>width = width imageData, height = height imageData,
       data = fold (\<lambda>i result.
                (let gray = getGrayOnWhite d i in
                 result[i := toUint8Clamp gray, i + 1 := toUint8Clamp gray,
                        i + 2 := toUint8Clamp gray, i + 3 := d ! (i + 3)]))
              (pixelStarts (length d)) d\<rparr>)"

definition adjustBrightness :: "ProcessingImageData \<Rightarrow> real \<Rightarrow> ProcessingImageData" where
  "adjustBrightness imageData amount =
     (let d = data imageData in
      \<lparr>width = width imageData, height = height imageData,
       data = fold (\<lambda>i result.
                result[i := toUint8Clamp (clamp (num (d ! i) + amount) 0 255),
                       i + 1 := toUint8Clamp (clamp (num (d ! (i + 1)) + amount) 0 255),
                       i + 2 := toUint8Clamp (clamp (num (d ! (i + 2)) + amount) 0 255),
                       i + 3 := d ! (i + 3)])
              (pixelStarts (length d)) d\<rparr>)"

definition adjustContrast :: "ProcessingImageData \<Rightarrow> real \<Rightarrow> ProcessingImageData" where
  "adjustContrast imageData amount =
     (let d = data imageData;
          factor = (259 * (amount + 255)) / (255 * (259 - amount)) in
      \<lparr>width = width imageData, height = height imageData,
       data = fold (\<lambda>i result.
                result[i := toUint8Clamp (clamp (((num (d ! i) / 255 - 0.5) * factor + 0.5) * 255) 0 255),
                       i + 1 := toUint8Clamp
                          (clamp (((num (d ! (i + 1)) / 255 - 0.5) * factor + 0.5) * 255) 0 255),
                       i + 2 := toUint8Clamp
                          (clamp (((num (d ! (i + 2)) / 255 - 0.5) * factor + 0.5) * 255) 0 255),
                       i + 3 := d ! (i + 3)])
              (pixelStarts (length d)) d\<rparr>)"

text \<open>
  \<open>Math.pow\<close> on a base that is not negative: any number to the power 0 is 1, and
  0 to a positive power is 0, as \<open>powr\<close> has it. (0 to a negative power is
  infinite in JavaScript; the gamma of the callers is positive.)
\<close>

definition mathPow :: "real \<Rightarrow> real \<Rightarrow> real" where
  "mathPow b e = (if e = 0 then 1 else b powr e)"

definition gammaLookupTable :: "real \<Rightarrow> u8 list" where
  "gammaLookupTable gamma =
     (let gammaCorrection = 1 / gamma in
      map (\<lambda>i. toUint8 (clamp (mathPow (real i / 255) gammaCorrection * 255) 0 255)) [0..<256])"

definition adjustGamma :: "ProcessingImageData \<Rightarrow> real \<Rightarrow> ProcessingImageData" where
  "adjustGamma imageData gamma =
     (let d = data imageData;
          lookupTable = gammaLookupTable gamma in
      \<lparr>width = width imageData, height = height imageData,
       data = fold (\<lambda>i result.
                result[i := lookupTable ! unat (d ! i),
                       i + 1 := lookupTable ! unat (d ! (i + 1)),
                       i + 2 := lookupTable ! unat (d ! (i + 2)),
                       i + 3 := d ! (i + 3)])
              (pixelStarts (length d)) d\<rparr>)"

definition invert :: "ProcessingImageData \<Rightarrow> ProcessingImageData" where
  "invert imageData =
     (let d = data imageData in
      \<lparr>width = width imageData, height = height imageData,
       data = fold (\<lambda>i result.
                result[i := toUint8Clamp (255 - num (d ! i)),
                       i + 1 := toUint8Clamp (255 - num (d ! (i + 1))),
                       i + 2 := toUint8Clamp (255 - num (d ! (i + 2))),
                       i + 3 := d ! (i + 3)])
              (pixelStarts (length d)) d\<rparr>)"

definition mirrorHorizontal :: "ProcessingImageData \<Rightarrow> ProcessingImageData" where
  "mirrorHorizontal imageData =
     (let w = width imageData; h = height imageData; d = data imageData in
      \<lparr>width = w, height = h,
       data = fold (\<lambda>y. fold (\<lambda>x result.
                (let srcIdx = (y * w + x) * 4;
                     dstIdx = (y * w + (w - 1 - x)) * 4 in
                 result[dstIdx := d ! srcIdx, dstIdx + 1 := d ! (srcIdx + 1),
                        dstIdx + 2 := d ! (srcIdx + 2), dstIdx + 3 := d ! (srcIdx + 3)]))
              [0..<w]) [0..<h] d\<rparr>)"

text \<open>
  The box blur: a horizontal pass from the input into \<open>temp\<close>, then a vertical pass
  from \<open>temp\<close> into the result. Each pass sums the channels of the neighbours inside
  the image and divides by their number. The radius is an integer; for a negative
  one no neighbour is counted and the quotient \<open>0 / 0\<close> is stored as the byte 0,
  which is also where the model's \<open>0 / 0 = 0\<close> ends.
\<close>

definition blurSum ::
  "u8 list \<Rightarrow> (int \<Rightarrow> nat option) \<Rightarrow> int \<Rightarrow> real \<times> real \<times> real \<times> real" where
  "blurSum src target radius =
     fold (\<lambda>delta acc.
        (case target delta of
           None \<Rightarrow> acc
         | Some idx \<Rightarrow>
             (case acc of (r, g, b, count) \<Rightarrow>
                (r + num (src ! idx), g + num (src ! (idx + 1)), b + num (src ! (idx + 2)),
                 count + 1))))
       [- radius..radius] (0, 0, 0, 0)"

definition blurStore :: "u8 list \<Rightarrow> nat \<Rightarrow> real \<times> real \<times> real \<times> real \<Rightarrow> u8 \<Rightarrow> u8 list" where
  "blurStore dst idx acc a =
     (case acc of (r, g, b, count) \<Rightarrow>
        dst[idx := toUint8Clamp (r / count), idx + 1 := toUint8Clamp (g / count),
            idx + 2 := toUint8Clamp (b / count), idx + 3 := a])"

definition boxBlur :: "ProcessingImageData \<Rightarrow> int \<Rightarrow> ProcessingImageData" where
  "boxBlur imageData radius =
     (let w = width imageData; h = height imageData; d = data imageData;
          temp = fold (\<lambda>y. fold (\<lambda>x temp.
                   (let acc = blurSum d
                          (\<lambda>dx. let nx = int x + dx in
                                if nx \<ge> 0 \<and> nx < int w then Some ((y * w + nat nx) * 4) else None)
                          radius;
                        idx = (y * w + x) * 4
                    in blurStore temp idx acc (d ! (idx + 3))))
                 [0..<w]) [0..<h] d;
          result = fold (\<lambda>y. fold (\<lambda>x result.
                   (let acc = blurSum temp
                          (\<lambda>dy. let ny = int y + dy in
                                if ny \<ge> 0 \<and> ny < int h then Some ((nat ny * w + x) * 4) else None)
                          radius;
                        idx = (y * w + x) * 4
                    in blurStore result idx acc (temp ! (idx + 3))))
                 [0..<w]) [0..<h] d
      in \<lparr>width = w, height = h, data = result\<rparr>)"

definition unsharpMask ::
  "ProcessingImageData \<Rightarrow> int \<Rightarrow> real \<Rightarrow> real \<Rightarrow> ProcessingImageData" where
  "unsharpMask imageData radius amount thresholdValue =
     (let d = data imageData;
          blurred = boxBlur imageData radius;
          amountFactor = amount / 100 in
      \<lparr>width = width imageData, height = height imageData,
       data = fold (\<lambda>i result.
                (let result = fold (\<lambda>c result.
                       (let original = num (d ! (i + c));
                            blur = num (data blurred ! (i + c));
                            diff = original - blur in
                        if \<bar>diff\<bar> \<ge> thresholdValue
                        then result[i + c := toUint8Clamp (clamp (original + diff * amountFactor) 0 255)]
                        else result[i + c := d ! (i + c)]))
                     [0..<3] result
                 in result[i + 3 := d ! (i + 3)]))
              (pixelStarts (length d)) d\<rparr>)"

definition laplacian :: "real list list" where
  "laplacian = [ [0, - 1, 0], [- 1, 4, - 1], [0, - 1, 0]]"

definition edgeEnhance :: "ProcessingImageData \<Rightarrow> real \<Rightarrow> ProcessingImageData" where
  "edgeEnhance imageData strength =
     (let w = width imageData; h = height imageData; d = data imageData in
      \<lparr>width = w, height = h,
       data = fold (\<lambda>y. fold (\<lambda>x result.
                (let result = fold (\<lambda>c result.
                       (let sum = fold (\<lambda>ky. fold (\<lambda>kx sum.
                                    (let idx = (nat (int y + ky) * w + nat (int x + kx)) * 4 in
                                     sum + num (d ! (idx + c))
                                           * (laplacian ! nat (ky + 1) ! nat (kx + 1))))
                                  [- 1..1]) [- 1..1] 0;
                            idx = (y * w + x) * 4 in
                        result[idx + c := toUint8Clamp
                                 (clamp (num (d ! (idx + c)) + sum * strength * 0.5) 0 255)]))
                     [0..<3] result;
                     idx = (y * w + x) * 4
                 in result[idx + 3 := d ! (idx + 3)]))
              [1..<w - 1]) [1..<h - 1] d\<rparr>)"

definition denoise :: "ProcessingImageData \<Rightarrow> real \<Rightarrow> ProcessingImageData" where
  "denoise imageData strength =
     (let w = width imageData; h = height imageData; d = data imageData;
          radius = max 1 \<lfloor>strength / 20\<rfloor>;
          thresholdVal = strength * 2 in
      \<lparr>width = w, height = h,
       data = fold (\<lambda>y. fold (\<lambda>x result.
                (let centerIdx = (nat y * w + nat x) * 4;
                     result = fold (\<lambda>c result.
                       (let centerValue = num (d ! (centerIdx + c));
                            acc = fold (\<lambda>dy. fold (\<lambda>dx acc.
                                    (let idx = (nat (y + dy) * w + nat (x + dx)) * 4;
                                         val = num (d ! (idx + c)) in
                                     if \<bar>val - centerValue\<bar> < thresholdVal
                                     then (fst acc + val, snd acc + 1) else acc))
                                  [- radius..radius]) [- radius..radius] (0, 0::nat)
                        in result[centerIdx + c :=
                             (if snd acc > 0 then toUint8Clamp (fst acc / real (snd acc))
                              else d ! (centerIdx + c))]))
                     [0..<3] result
                 in result[centerIdx + 3 := d ! (centerIdx + 3)]))
              [radius..int w - radius - 1]) [radius..int h - radius - 1] d\<rparr>)"

text \<open>
  The two histogram scans of \<open>autoAdjust\<close>: the bins are visited in the given order
  and the first one at which the running count exceeds the clip amount is the
  level; when none does, the level keeps its initial value.
\<close>

fun levelScan :: "nat \<Rightarrow> nat \<Rightarrow> nat \<Rightarrow> (nat \<times> nat) list \<Rightarrow> nat" where
  "levelScan clipAmount level count [] = level"
| "levelScan clipAmount level count ((i, n) # bins) =
     (if count + n > clipAmount then i else levelScan clipAmount level (count + n) bins)"

definition autoAdjust :: "ProcessingImageData \<Rightarrow> ProcessingImageData" where
  "autoAdjust imageData =
     (let w = width imageData; h = height imageData; d = data imageData;
          histogram = fold (\<lambda>i histogram.
                        (let gray = nat (mathRound (getGrayOnWhite d i)) in
                         histogram[gray := histogram ! gray + 1]))
                      (pixelStarts (length d)) (replicate 256 (0::nat));
          totalPixels = w * h;
          clipAmount = nat \<lfloor>real totalPixels * 0.005\<rfloor>;
          minLevel = levelScan clipAmount 0 0 (zip [0..<256] histogram);
          maxLevel = levelScan clipAmount 255 0 (rev (zip [0..<256] histogram));
          range = int maxLevel - int minLevel in
      \<lparr>width = w, height = h,
       data = (if range > 0 then
                 fold (\<lambda>i result.
                   (let result = fold (\<lambda>c result.
                          result[i + c := toUint8Clamp
                                   (clamp (((num (d ! (i + c)) - real minLevel) / real_of_int range) * 255)
                                      0 255)])
                        [0..<3] result
                    in result[i + 3 := d ! (i + 3)]))
                 (pixelStarts (length d)) d
               else d)\<rparr>)"

definition adjustLevels :: "ProcessingImageData \<Rightarrow> real \<Rightarrow> real \<Rightarrow> ProcessingImageData" where
  "adjustLevels imageData blackPoint whitePoint =
     (let d = data imageData;
          bp = clamp (real_of_int (mathRound blackPoint)) 0 255;
          wp = clamp (real_of_int (mathRound whitePoint)) 0 255;
          minLevel = min bp wp;
          maxLevel = max bp wp;
          range = max 1 (maxLevel - minLevel) in
      if minLevel = 0 \<and> maxLevel = 255
      then \<lparr>width = width imageData, height = height imageData, data = d\<rparr>
      else
      \<lparr>width = width imageData, height = height imageData,
       data = fold (\<lambda>i result.
                (let result = fold (\<lambda>c result.
                       result[i + c := toUint8Clamp
                                (clamp (((num (d ! (i + c)) - minLevel) / range) * 255) 0 255)])
                     [0..<3] result
                 in result[i + 3 := d ! (i + 3)]))
              (pixelStarts (length d)) d\<rparr>)"

definition threshold :: "ProcessingImageData \<Rightarrow> real \<Rightarrow> ProcessingImageData" where
  "threshold imageData thresholdValue =
     (let d = data imageData;
          t = clamp (real_of_int (mathRound thresholdValue)) 0 255 in
      \<lparr>width = width imageData, height = height imageData,
       data = fold (\<lambda>i result.
                (let v = (if num (d ! i) < t then 0 else 255) in
                 result[i := toUint8Clamp v, i + 1 := toUint8Clamp v, i + 2 := toUint8Clamp v,
                        i + 3 := d ! (i + 3)]))
              (pixelStarts (length d)) d\<rparr>)"

definition colorCorrection :: "ProcessingImageData \<Rightarrow> real \<Rightarrow> real \<Rightarrow> ProcessingImageData" where
  "colorCorrection imageData shadowLift highlightCompress =
     (let d = data imageData in
      \<lparr>width = width imageData, height = height imageData,
       data = fold (\<lambda>i result.
                (let result = fold (\<lambda>c result.
                       (let val = num (d ! (i + c));
                            val = (if val < 50 then val + (50 - val) * (shadowLift / 100) else val);
                            val = (if val > 230
                                   then 230 + (val - 230) * (1 - highlightCompress / 100) else val)
                        in result[i + c := toUint8Clamp (clamp val 0 255)]))
                     [0..<3] result
                 in result[i + 3 := d ! (i + 3)]))
              (pixelStarts (length d)) d\<rparr>)"

definition sketchEffect :: "ProcessingImageData \<Rightarrow> ProcessingImageData" where
  "sketchEffect imageData =
     (let d = data imageData;
          gray = toGrayscale \<lparr>width = width imageData, height = height imageData, data = d\<rparr>;
          inverted = invert gray;
          blurred = boxBlur inverted 5 in
      \<lparr>width = width imageData, height = height imageData,
       data = fold (\<lambda>i result.
                (let base = data gray ! i;
                     blend = data blurred ! i;
                     v = (if blend = 255 then 255
                          else clamp ((num base * 255) / (255 - num blend)) 0 255)
                 in result[i := toUint8Clamp v, i + 1 := toUint8Clamp v, i + 2 := toUint8Clamp v,
                           i + 3 := d ! (i + 3)]))
              (pixelStarts (length d)) d\<rparr>)"

section \<open>Contours and edges (\<open>contour.ts\<close>)\<close>

definition extractContours :: "ProcessingImageData \<Rightarrow> real \<Rightarrow> ProcessingImageData" where
  "extractContours imageData thresholdValue =
     (let w = width imageData; h = height imageData; d = data imageData;
          result = replicate (length d) (255 :: u8);
          binary = map (\<lambda>i. if getGrayOnWhite64 d (i * 4) < thresholdValue then 1 else 0 :: nat)
                     [0..<w * h]
      in \<lparr>width = w, height = h,
          data = fold (\<lambda>y. fold (\<lambda>x result.
                   (let idx = y * w + x in
                    if binary ! idx = 1 then
                      (let hasWhiteNeighbor =
                             (binary ! (idx - 1) = 0 \<or> binary ! (idx + 1) = 0
                              \<or> binary ! (idx - w) = 0 \<or> binary ! (idx + w) = 0)
                       in if hasWhiteNeighbor then
                            (let pixelIdx = idx * 4 in
                             result[pixelIdx := 0, pixelIdx + 1 := 0, pixelIdx + 2 := 0,
                                    pixelIdx + 3 := 255])
                          else result)
                    else result))
                 [1..<w - 1]) [1..<h - 1] result\<rparr>)"

subsection \<open>Canny edge detection\<close>

text \<open>
  \<open>Math.atan2\<close> on reals. JavaScript tells \<open>+0\<close> from \<open>-0\<close> in the second argument
  (the angle of \<open>(0, -0)\<close> is \<open>pi\<close>); the model has one zero with angle 0. The only
  use of the angle below takes its absolute value, and 0 and \<open>pi\<close> fall in the same
  class there.
\<close>

definition mathAtan2 :: "real \<Rightarrow> real \<Rightarrow> real" where
  "mathAtan2 y x =
     (if x > 0 then arctan (y / x)
      else if x < 0 then (if y \<ge> 0 then arctan (y / x) + pi else arctan (y / x) - pi)
      else if y > 0 then pi / 2 else if y < 0 then - (pi / 2) else 0)"

definition gaussKernel :: "real list" where
  "gaussKernel = [1, 2, 1, 2, 4, 2, 1, 2, 1]"

definition gaussianBlur :: "nat \<Rightarrow> nat \<Rightarrow> real list \<Rightarrow> real list" where
  "gaussianBlur w h gray =
     fold (\<lambda>y. fold (\<lambda>x blurred.
        (let acc = fold (\<lambda>dy. fold (\<lambda>dx acc.
                      (fst acc + gray ! (nat (int y + dy) * w + nat (int x + dx))
                                 * gaussKernel ! snd acc,
                       snd acc + 1))
                    [- 1..1]) [- 1..1] (0, 0::nat)
         in blurred[y * w + x := fst acc / 16]))
       [1..<w - 1]) [1..<h - 1] (replicate (w * h) 0)"

definition sobelX :: "nat \<Rightarrow> real list \<Rightarrow> nat \<Rightarrow> nat \<Rightarrow> real" where
  "sobelX w blurred x y =
     - blurred ! ((y - 1) * w + (x - 1))
     + blurred ! ((y - 1) * w + (x + 1))
     + - 2 * blurred ! (y * w + (x - 1))
     + 2 * blurred ! (y * w + (x + 1))
     + - blurred ! ((y + 1) * w + (x - 1))
     + blurred ! ((y + 1) * w + (x + 1))"

definition sobelY :: "nat \<Rightarrow> real list \<Rightarrow> nat \<Rightarrow> nat \<Rightarrow> real" where
  "sobelY w blurred x y =
     - blurred ! ((y - 1) * w + (x - 1))
     - 2 * blurred ! ((y - 1) * w + x)
     - blurred ! ((y - 1) * w + (x + 1))
     + blurred ! ((y + 1) * w + (x - 1))
     + 2 * blurred ! ((y + 1) * w + x)
     + blurred ! ((y + 1) * w + (x + 1))"

text \<open>The gradient pass fills \<open>magnitude\<close> and \<open>direction\<close> together.\<close>

definition gradients :: "nat \<Rightarrow> nat \<Rightarrow> real list \<Rightarrow> real list \<times> real list" where
  "gradients w h blurred =
     fold (\<lambda>y. fold (\<lambda>x st.
        (let idx = y * w + x;
             gx = sobelX w blurred x y;
             gy = sobelY w blurred x y
         in ((fst st)[idx := sqrt (gx * gx + gy * gy)], (snd st)[idx := mathAtan2 gy gx])))
       [1..<w - 1]) [1..<h - 1] (replicate (w * h) 0, replicate (w * h) 0)"

definition nonMaxSuppression :: "nat \<Rightarrow> nat \<Rightarrow> real list \<Rightarrow> real list \<Rightarrow> real list" where
  "nonMaxSuppression w h magnitude direction =
     fold (\<lambda>y. fold (\<lambda>x suppressed.
        (let idx = y * w + x;
             angle = direction ! idx;
             mag = magnitude ! idx;
             absAngle = \<bar>angle\<bar>;
             neighbours =
               (if absAngle < pi / 8 \<or> absAngle > (7 * pi) / 8
                then (magnitude ! (idx - 1), magnitude ! (idx + 1))
                else if absAngle < (3 * pi) / 8
                then (magnitude ! ((y - 1) * w + (x + 1)), magnitude ! ((y + 1) * w + (x - 1)))
                else if absAngle < (5 * pi) / 8
                then (magnitude ! ((y - 1) * w + x), magnitude ! ((y + 1) * w + x))
                else (magnitude ! ((y - 1) * w + (x - 1)), magnitude ! ((y + 1) * w + (x + 1))))
         in if mag \<ge> fst neighbours \<and> mag \<ge> snd neighbours
            then suppressed[idx := mag] else suppressed))
       [1..<w - 1]) [1..<h - 1] (replicate (w * h) 0)"

definition doubleThreshold :: "nat \<Rightarrow> nat \<Rightarrow> real list \<Rightarrow> real \<Rightarrow> real \<Rightarrow> nat list" where
  "doubleThreshold w h suppressed lowThreshold highThreshold =
     fold (\<lambda>y. fold (\<lambda>x edgesOutput.
        (let idx = y * w + x in
         if suppressed ! idx \<ge> highThreshold then edgesOutput[idx := 2]
         else if suppressed ! idx \<ge> lowThreshold then edgesOutput[idx := 1]
         else edgesOutput))
       [0..<w]) [0..<h] (replicate (w * h) 0)"

text \<open>
  One pass of the hysteresis loop. A weak pixel with a strong pixel among the nine
  cells around it becomes strong and sets \<open>changed\<close>; the two \<open>break\<close>s of the
  source only stop the search once that has happened.
\<close>

definition hysteresisPass :: "nat \<Rightarrow> nat \<Rightarrow> nat list \<Rightarrow> nat list \<times> bool" where
  "hysteresisPass w h edgesOutput =
     fold (\<lambda>y. fold (\<lambda>x st.
        (let idx = y * w + x in
         if fst st ! idx = 1
            \<and> list_ex (\<lambda>dy. list_ex (\<lambda>dx. fst st ! (nat (int y + dy) * w + nat (int x + dx)) = 2)
                   [- 1..1]) [- 1..1]
         then ((fst st)[idx := 2], True) else st))
       [1..<w - 1]) [1..<h - 1] (edgesOutput, False)"

text \<open>
  \<open>while (changed)\<close>: the pass is repeated until one changes nothing. The loop is a
  partial function; \<open>None\<close> stands for a loop that does not end.
\<close>

partial_function (option) hysteresis :: "nat \<Rightarrow> nat \<Rightarrow> nat list \<Rightarrow> nat list option" where
  "hysteresis w h edgesOutput =
     (let st = hysteresisPass w h edgesOutput in
      if snd st then hysteresis w h (fst st) else Some (fst st))"

definition edgeImage :: "nat \<Rightarrow> nat \<Rightarrow> nat list \<Rightarrow> ProcessingImageData" where
  "edgeImage w h edgesOutput =
     \<lparr>width = w, height = h,
      data = fold (\<lambda>i result.
               (let idx = i * 4;
                    result = (if edgesOutput ! i = 2
                              then result[idx := 0, idx + 1 := 0, idx + 2 := 0] else result)
                in result[idx + 3 := 255]))
             [0..<w * h] (replicate (w * h * 4) (255 :: u8))\<rparr>"

definition cannyEdgeDetection ::
  "ProcessingImageData \<Rightarrow> real \<Rightarrow> real \<Rightarrow> ProcessingImageData option" where
  "cannyEdgeDetection imageData lowThreshold highThreshold =
     (let w = width imageData; h = height imageData; d = data imageData;
          gray = map (\<lambda>i. getGrayOnWhite d (i * 4)) [0..<w * h];
          blurred = gaussianBlur w h gray;
          grad = gradients w h blurred;
          suppressed = nonMaxSuppression w h (fst grad) (snd grad);
          edgesOutput = doubleThreshold w h suppressed lowThreshold highThreshold
      in map_option (edgeImage w h) (hysteresis w h edgesOutput))"

section \<open>Masking (\<open>masking.ts\<close>)\<close>



section \<open>The same functions over a store of arrays\<close>

text \<open>
  The functions above take and return array contents. Whether a function writes
  into the array it was given, or returns it, is a question about array identity,
  so the adjustments and the dithering functions are written once more over an
  explicit store: a \<open>Uint8ClampedArray\<close> is an address into the store, a buffer
  object carries the address of its \<open>data\<close>, \<open>new Uint8ClampedArray(...)\<close> takes the
  next free address, \<open>a[i]\<close> reads the store and \<open>a[i] = v\<close> updates it. Every read and
  every write of the source is one read or write here, on the array the source
  names. Arrays of other types (\<open>Float32Array\<close>, \<open>Uint8Array\<close>, plain arrays) are
  local to one call and stay values.
\<close>

record Store =
  buffers :: "nat \<Rightarrow> u8 list"
  nextFree :: nat

record ImageRef =
  refWidth :: nat
  refHeight :: nat
  refData :: nat

definition rd :: "Store \<Rightarrow> nat \<Rightarrow> nat \<Rightarrow> u8" where
  "rd s a i = buffers s a ! i"

definition wr :: "Store \<Rightarrow> nat \<Rightarrow> nat \<Rightarrow> u8 \<Rightarrow> Store" where
  "wr s a i v = s\<lparr>buffers := (buffers s)(a := (buffers s a)[i := v])\<rparr>"

text \<open>\<open>new Uint8ClampedArray(data)\<close> copies; \<open>new Uint8ClampedArray(n)\<close> is filled with 0.\<close>

definition newCopy :: "Store \<Rightarrow> nat \<Rightarrow> Store \<times> nat" where
  "newCopy s a =
     (s\<lparr>buffers := (buffers s)(nextFree s := buffers s a), nextFree := Suc (nextFree s)\<rparr>,
      nextFree s)"

definition imageAt :: "Store \<Rightarrow> ImageRef \<Rightarrow> ProcessingImageData" where
  "imageAt s r = \<lparr>width = refWidth r, height = refHeight r, data = buffers s (refData r)\<rparr>"

subsection \<open>Adjustments\<close>

definition toGrayscale_st :: "Store \<Rightarrow> ImageRef \<Rightarrow> Store \<times> ImageRef" where
  "toGrayscale_st s0 imageData =
     (let d = refData imageData;
          (s, result) = newCopy s0 d
      in (fold (\<lambda>i s.
            (let gray = getGrayOnWhite (buffers s d) i;
                 s = wr s result i (toUint8Clamp gray);
                 s = wr s result (i + 1) (toUint8Clamp gray);
                 s = wr s result (i + 2) (toUint8Clamp gray)
             in wr s result (i + 3) (rd s d (i + 3))))
            (pixelStarts (length (buffers s d))) s,
          imageData\<lparr>refData := result\<rparr>))"

definition adjustBrightness_st :: "Store \<Rightarrow> ImageRef \<Rightarrow> real \<Rightarrow> Store \<times> ImageRef" where
  "adjustBrightness_st s0 imageData amount =
     (let d = refData imageData;
          (s, result) = newCopy s0 d
      in (fold (\<lambda>i s.
            (let s = wr s result i (toUint8Clamp (clamp (num (rd s d i) + amount) 0 255));
                 s = wr s result (i + 1) (toUint8Clamp (clamp (num (rd s d (i + 1)) + amount) 0 255));
                 s = wr s result (i + 2) (toUint8Clamp (clamp (num (rd s d (i + 2)) + amount) 0 255))
             in wr s result (i + 3) (rd s d (i + 3))))
            (pixelStarts (length (buffers s d))) s,
          imageData\<lparr>refData := result\<rparr>))"

definition adjustContrast_st :: "Store \<Rightarrow> ImageRef \<Rightarrow> real \<Rightarrow> Store \<times> ImageRef" where
  "adjustContrast_st s0 imageData amount =
     (let d = refData imageData;
          (s, result) = newCopy s0 d;
          factor = (259 * (amount + 255)) / (255 * (259 - amount))
      in (fold (\<lambda>i s.
            (let s = wr s result i
                       (toUint8Clamp (clamp (((num (rd s d i) / 255 - 0.5) * factor + 0.5) * 255) 0 255));
                 s = wr s result (i + 1)
                       (toUint8Clamp
                          (clamp (((num (rd s d (i + 1)) / 255 - 0.5) * factor + 0.5) * 255) 0 255));
                 s = wr s result (i + 2)
                       (toUint8Clamp
                          (clamp (((num (rd s d (i + 2)) / 255 - 0.5) * factor + 0.5) * 255) 0 255))
             in wr s result (i + 3) (rd s d (i + 3))))
            (pixelStarts (length (buffers s d))) s,
          imageData\<lparr>refData := result\<rparr>))"

definition adjustGamma_st :: "Store \<Rightarrow> ImageRef \<Rightarrow> real \<Rightarrow> Store \<times> ImageRef" where
  "adjustGamma_st s0 imageData gammaValue =
     (let d = refData imageData;
          (s, result) = newCopy s0 d;
          lookupTable = gammaLookupTable gammaValue
      in (fold (\<lambda>i s.
            (let s = wr s result i (lookupTable ! unat (rd s d i));
                 s = wr s result (i + 1) (lookupTable ! unat (rd s d (i + 1)));
                 s = wr s result (i + 2) (lookupTable ! unat (rd s d (i + 2)))
             in wr s result (i + 3) (rd s d (i + 3))))
            (pixelStarts (length (buffers s d))) s,
          imageData\<lparr>refData := result\<rparr>))"

definition invert_st :: "Store \<Rightarrow> ImageRef \<Rightarrow> Store \<times> ImageRef" where
  "invert_st s0 imageData =
     (let d = refData imageData;
          (s, result) = newCopy s0 d
      in (fold (\<lambda>i s.
            (let s = wr s result i (toUint8Clamp (255 - num (rd s d i)));
                 s = wr s result (i + 1) (toUint8Clamp (255 - num (rd s d (i + 1))));
                 s = wr s result (i + 2) (toUint8Clamp (255 - num (rd s d (i + 2))))
             in wr s result (i + 3) (rd s d (i + 3))))
            (pixelStarts (length (buffers s d))) s,
          imageData\<lparr>refData := result\<rparr>))"

definition mirrorHorizontal_st :: "Store \<Rightarrow> ImageRef \<Rightarrow> Store \<times> ImageRef" where
  "mirrorHorizontal_st s0 imageData =
     (let w = refWidth imageData; h = refHeight imageData; d = refData imageData;
          (s, result) = newCopy s0 d
      in (fold (\<lambda>y. fold (\<lambda>x s.
            (let srcIdx = (y * w + x) * 4;
                 dstIdx = (y * w + (w - 1 - x)) * 4;
                 s = wr s result dstIdx (rd s d srcIdx);
                 s = wr s result (dstIdx + 1) (rd s d (srcIdx + 1));
                 s = wr s result (dstIdx + 2) (rd s d (srcIdx + 2))
             in wr s result (dstIdx + 3) (rd s d (srcIdx + 3))))
            [0..<w]) [0..<h] s,
          imageData\<lparr>refData := result\<rparr>))"

definition blurStore_st :: "Store \<Rightarrow> nat \<Rightarrow> nat \<Rightarrow> real \<times> real \<times> real \<times> real \<Rightarrow> u8 \<Rightarrow> Store" where
  "blurStore_st s dst idx acc a =
     (case acc of (r, g, b, count) \<Rightarrow>
        (let s = wr s dst idx (toUint8Clamp (r / count));
             s = wr s dst (idx + 1) (toUint8Clamp (g / count));
             s = wr s dst (idx + 2) (toUint8Clamp (b / count))
         in wr s dst (idx + 3) a))"

definition boxBlur_st :: "Store \<Rightarrow> ImageRef \<Rightarrow> int \<Rightarrow> Store \<times> ImageRef" where
  "boxBlur_st s0 imageData radius =
     (let w = refWidth imageData; h = refHeight imageData; d = refData imageData;
          (s, result) = newCopy s0 d;
          (s, temp) = newCopy s d;
          s = fold (\<lambda>y. fold (\<lambda>x s.
                (let acc = blurSum (buffers s d)
                       (\<lambda>dx. let nx = int x + dx in
                             if nx \<ge> 0 \<and> nx < int w then Some ((y * w + nat nx) * 4) else None)
                       radius;
                     idx = (y * w + x) * 4
                 in blurStore_st s temp idx acc (rd s d (idx + 3))))
              [0..<w]) [0..<h] s
      in (fold (\<lambda>y. fold (\<lambda>x s.
                (let acc = blurSum (buffers s temp)
                       (\<lambda>dy. let ny = int y + dy in
                             if ny \<ge> 0 \<and> ny < int h then Some ((nat ny * w + x) * 4) else None)
                       radius;
                     idx = (y * w + x) * 4
                 in blurStore_st s result idx acc (rd s temp (idx + 3))))
              [0..<w]) [0..<h] s,
          imageData\<lparr>refData := result\<rparr>))"

definition unsharpMask_st ::
  "Store \<Rightarrow> ImageRef \<Rightarrow> int \<Rightarrow> real \<Rightarrow> real \<Rightarrow> Store \<times> ImageRef" where
  "unsharpMask_st s0 imageData radius amount thresholdValue =
     (let d = refData imageData;
          (s, result) = newCopy s0 d;
          (s, blurred) = boxBlur_st s imageData radius;
          amountFactor = amount / 100
      in (fold (\<lambda>i s.
            (let s = fold (\<lambda>c s.
                   (let original = num (rd s d (i + c));
                        blur = num (rd s (refData blurred) (i + c));
                        diff = original - blur in
                    if \<bar>diff\<bar> \<ge> thresholdValue
                    then wr s result (i + c) (toUint8Clamp (clamp (original + diff * amountFactor) 0 255))
                    else wr s result (i + c) (rd s d (i + c))))
                 [0..<3] s
             in wr s result (i + 3) (rd s d (i + 3))))
            (pixelStarts (length (buffers s d))) s,
          imageData\<lparr>refData := result\<rparr>))"

definition edgeEnhance_st :: "Store \<Rightarrow> ImageRef \<Rightarrow> real \<Rightarrow> Store \<times> ImageRef" where
  "edgeEnhance_st s0 imageData strength =
     (let w = refWidth imageData; h = refHeight imageData; d = refData imageData;
          (s, result) = newCopy s0 d
      in (fold (\<lambda>y. fold (\<lambda>x s.
            (let s = fold (\<lambda>c s.
                   (let sum = fold (\<lambda>ky. fold (\<lambda>kx sum.
                                (let idx = (nat (int y + ky) * w + nat (int x + kx)) * 4 in
                                 sum + num (rd s d (idx + c))
                                       * (laplacian ! nat (ky + 1) ! nat (kx + 1))))
                              [- 1..1]) [- 1..1] 0;
                        idx = (y * w + x) * 4 in
                    wr s result (idx + c)
                      (toUint8Clamp (clamp (num (rd s d (idx + c)) + sum * strength * 0.5) 0 255))))
                 [0..<3] s;
                 idx = (y * w + x) * 4
             in wr s result (idx + 3) (rd s d (idx + 3))))
            [1..<w - 1]) [1..<h - 1] s,
          imageData\<lparr>refData := result\<rparr>))"

definition denoise_st :: "Store \<Rightarrow> ImageRef \<Rightarrow> real \<Rightarrow> Store \<times> ImageRef" where
  "denoise_st s0 imageData strength =
     (let w = refWidth imageData; h = refHeight imageData; d = refData imageData;
          (s, result) = newCopy s0 d;
          radius = max 1 \<lfloor>strength / 20\<rfloor>;
          thresholdVal = strength * 2
      in (fold (\<lambda>y. fold (\<lambda>x s.
            (let centerIdx = (nat y * w + nat x) * 4;
                 s = fold (\<lambda>c s.
                   (let centerValue = num (rd s d (centerIdx + c));
                        acc = fold (\<lambda>dy. fold (\<lambda>dx acc.
                                (let idx = (nat (y + dy) * w + nat (x + dx)) * 4;
                                     val = num (rd s d (idx + c)) in
                                 if \<bar>val - centerValue\<bar> < thresholdVal
                                 then (fst acc + val, snd acc + 1) else acc))
                              [- radius..radius]) [- radius..radius] (0, 0::nat)
                    in wr s result (centerIdx + c)
                         (if snd acc > 0 then toUint8Clamp (fst acc / real (snd acc))
                          else rd s d (centerIdx + c))))
                 [0..<3] s
             in wr s result (centerIdx + 3) (rd s d (centerIdx + 3))))
            [radius..int w - radius - 1]) [radius..int h - radius - 1] s,
          imageData\<lparr>refData := result\<rparr>))"

definition autoAdjust_st :: "Store \<Rightarrow> ImageRef \<Rightarrow> Store \<times> ImageRef" where
  "autoAdjust_st s0 imageData =
     (let w = refWidth imageData; h = refHeight imageData; d = refData imageData;
          (s, result) = newCopy s0 d;
          histogram = fold (\<lambda>i histogram.
                        (let gray = nat (mathRound (getGrayOnWhite (buffers s d) i)) in
                         histogram[gray := histogram ! gray + 1]))
                      (pixelStarts (length (buffers s d))) (replicate 256 (0::nat));
          totalPixels = w * h;
          clipAmount = nat \<lfloor>real totalPixels * 0.005\<rfloor>;
          minLevel = levelScan clipAmount 0 0 (zip [0..<256] histogram);
          maxLevel = levelScan clipAmount 255 0 (rev (zip [0..<256] histogram));
          range = int maxLevel - int minLevel
      in ((if range > 0 then
             fold (\<lambda>i s.
               (let s = fold (\<lambda>c s.
                      wr s result (i + c)
                        (toUint8Clamp
                           (clamp (((num (rd s d (i + c)) - real minLevel) / real_of_int range) * 255)
                              0 255)))
                    [0..<3] s
                in wr s result (i + 3) (rd s d (i + 3))))
             (pixelStarts (length (buffers s d))) s
           else s),
          imageData\<lparr>refData := result\<rparr>))"

definition adjustLevels_st :: "Store \<Rightarrow> ImageRef \<Rightarrow> real \<Rightarrow> real \<Rightarrow> Store \<times> ImageRef" where
  "adjustLevels_st s0 imageData blackPoint whitePoint =
     (let d = refData imageData;
          (s, result) = newCopy s0 d;
          bp = clamp (real_of_int (mathRound blackPoint)) 0 255;
          wp = clamp (real_of_int (mathRound whitePoint)) 0 255;
          minLevel = min bp wp;
          maxLevel = max bp wp;
          range = max 1 (maxLevel - minLevel)
      in if minLevel = 0 \<and> maxLevel = 255
         then (s, imageData\<lparr>refData := result\<rparr>)
         else
           (fold (\<lambda>i s.
              (let s = fold (\<lambda>c s.
                     wr s result (i + c)
                       (toUint8Clamp (clamp (((num (rd s d (i + c)) - minLevel) / range) * 255) 0 255)))
                   [0..<3] s
               in wr s result (i + 3) (rd s d (i + 3))))
              (pixelStarts (length (buffers s d))) s,
            imageData\<lparr>refData := result\<rparr>))"

definition threshold_st :: "Store \<Rightarrow> ImageRef \<Rightarrow> real \<Rightarrow> Store \<times> ImageRef" where
  "threshold_st s0 imageData thresholdValue =
     (let d = refData imageData;
          (s, result) = newCopy s0 d;
          t = clamp (real_of_int (mathRound thresholdValue)) 0 255
      in (fold (\<lambda>i s.
            (let v = (if num (rd s d i) < t then 0 else 255);
                 s = wr s result i (toUint8Clamp v);
                 s = wr s result (i + 1) (toUint8Clamp v);
                 s = wr s result (i + 2) (toUint8Clamp v)
             in wr s result (i + 3) (rd s d (i + 3))))
            (pixelStarts (length (buffers s d))) s,
          imageData\<lparr>refData := result\<rparr>))"

definition colorCorrection_st :: "Store \<Rightarrow> ImageRef \<Rightarrow> real \<Rightarrow> real \<Rightarrow> Store \<times> ImageRef" where
  "colorCorrection_st s0 imageData lift compress =
     (let d = refData imageData;
          (s, result) = newCopy s0 d
      in (fold (\<lambda>i s.
            (let s = fold (\<lambda>c s.
                   (let val = num (rd s d (i + c));
                        val = (if val < 50 then val + (50 - val) * (lift / 100) else val);
                        val = (if val > 230 then 230 + (val - 230) * (1 - compress / 100) else val)
                    in wr s result (i + c) (toUint8Clamp (clamp val 0 255))))
                 [0..<3] s
             in wr s result (i + 3) (rd s d (i + 3))))
            (pixelStarts (length (buffers s d))) s,
          imageData\<lparr>refData := result\<rparr>))"

definition sketchEffect_st :: "Store \<Rightarrow> ImageRef \<Rightarrow> Store \<times> ImageRef" where
  "sketchEffect_st s0 imageData =
     (let d = refData imageData;
          (s, gray) = toGrayscale_st s0
                        \<lparr>refWidth = refWidth imageData, refHeight = refHeight imageData, refData = d\<rparr>;
          (s, inverted) = invert_st s gray;
          (s, blurred) = boxBlur_st s inverted 5;
          (s, result) = newCopy s d
      in (fold (\<lambda>i s.
            (let base = rd s (refData gray) i;
                 blend = rd s (refData blurred) i;
                 v = (if blend = 255 then 255
                      else clamp ((num base * 255) / (255 - num blend)) 0 255);
                 s = wr s result i (toUint8Clamp v);
                 s = wr s result (i + 1) (toUint8Clamp v);
                 s = wr s result (i + 2) (toUint8Clamp v)
             in wr s result (i + 3) (rd s d (i + 3))))
            (pixelStarts (length (buffers s d))) s,
          imageData\<lparr>refData := result\<rparr>))"

subsection \<open>Dithering\<close>

definition setPixel_st :: "Store \<Rightarrow> nat \<Rightarrow> nat \<Rightarrow> real \<Rightarrow> Store" where
  "setPixel_st s a idx v =
     (let s = wr s a idx (toUint8Clamp v);
          s = wr s a (idx + 1) (toUint8Clamp v)
      in wr s a (idx + 2) (toUint8Clamp v))"

definition diffusePixel_st ::
  "distribution \<Rightarrow> nat \<Rightarrow> nat \<Rightarrow> nat \<Rightarrow> nat \<Rightarrow> nat \<Rightarrow> nat \<Rightarrow>
   Store \<times> real list \<Rightarrow> Store \<times> real list" where
  "diffusePixel_st distribute w h d result x y st =
     (let s = fst st; errors = snd st;
          idx = y * w + x;
          oldPixel = errors ! idx;
          newPixel = (if oldPixel < 128 then 0 else 255);
          quantError = fl64 (oldPixel - newPixel);
          s = setPixel_st s result (idx * 4) newPixel;
          s = wr s result (idx * 4 + 3) (rd s d (idx * 4 + 3))
      in (s, distribute w h x y quantError errors))"

definition errorDiffusion_st :: "distribution \<Rightarrow> Store \<Rightarrow> ImageRef \<Rightarrow> Store \<times> ImageRef" where
  "errorDiffusion_st distribute s0 imageData =
     (let w = refWidth imageData; h = refHeight imageData; d = refData imageData;
          (s, result) = newCopy s0 d;
          errors = map (\<lambda>i. fround (getGray (buffers s d) (i * 4))) [0..<w * h];
          final = fold (\<lambda>y. fold (\<lambda>x. diffusePixel_st distribute w h d result x y) [0..<w]) [0..<h]
                    (s, errors)
      in (fst final, imageData\<lparr>refData := result\<rparr>))"

definition orderedPixel_st ::
  "nat list list \<Rightarrow> nat \<Rightarrow> nat \<Rightarrow> nat \<Rightarrow> nat \<Rightarrow> nat \<Rightarrow> nat \<Rightarrow> Store \<Rightarrow> Store" where
  "orderedPixel_st bayerMatrix msize w d result x y s =
     (let idx = (y * w + x) * 4;
          gray = getGray (buffers s d) idx;
          level = bayerMatrix ! (y mod msize) ! (x mod msize);
          newPixel = (if gray > real level then 255 else 0);
          s = setPixel_st s result idx newPixel
      in wr s result (idx + 3) (rd s d (idx + 3)))"

definition orderedDither_st ::
  "nat list list \<Rightarrow> nat \<Rightarrow> Store \<Rightarrow> ImageRef \<Rightarrow> Store \<times> ImageRef" where
  "orderedDither_st bayerMatrix msize s0 imageData =
     (let w = refWidth imageData; h = refHeight imageData; d = refData imageData;
          (s, result) = newCopy s0 d
      in (fold (\<lambda>y. fold (\<lambda>x. orderedPixel_st bayerMatrix msize w d result x y) [0..<w]) [0..<h] s,
          imageData\<lparr>refData := result\<rparr>))"

fun ditheringAlgorithms_st :: "DitheringAlgorithm \<Rightarrow> Store \<Rightarrow> ImageRef \<Rightarrow> Store \<times> ImageRef" where
  "ditheringAlgorithms_st FloydSteinberg = errorDiffusion_st fsDistribute"
| "ditheringAlgorithms_st JarvisJudiceNinke =
     errorDiffusion_st (kernelDistribute [ [0, 0, 0, 7, 5], [3, 5, 7, 5, 3], [1, 3, 5, 3, 1]] 48)"
| "ditheringAlgorithms_st Stucki =
     errorDiffusion_st (kernelDistribute [ [0, 0, 0, 8, 4], [2, 4, 8, 4, 2], [1, 2, 4, 2, 1]] 42)"
| "ditheringAlgorithms_st Atkinson = errorDiffusion_st atkinsonDistribute"
| "ditheringAlgorithms_st Sierra =
     errorDiffusion_st (kernelDistribute [ [0, 0, 0, 5, 3], [2, 4, 5, 4, 2], [0, 2, 3, 2, 0]] 32)"
| "ditheringAlgorithms_st SierraTwoRow =
     errorDiffusion_st (kernelDistribute [ [0, 0, 0, 4, 3], [1, 2, 3, 2, 1]] 16)"
| "ditheringAlgorithms_st Burkes = errorDiffusion_st burkesDistribute"
| "ditheringAlgorithms_st BayerOrdered = orderedDither_st bayerMatrix8 8"
| "ditheringAlgorithms_st BayerOrdered4x4 = orderedDither_st bayerMatrix4 4"

subsection \<open>The two function tables\<close>

text \<open>
  A call of one of the fourteen entries of \<open>adjustmentFunctions\<close>, with its
  arguments, or of one of the nine entries of \<open>ditheringAlgorithms\<close>.
\<close>

datatype Transform =
  ToGrayscale
  | AdjustBrightness real
  | AdjustContrast real
  | AdjustGamma real
  | Invert
  | MirrorHorizontal
  | UnsharpMask int real real
  | EdgeEnhance real
  | Denoise real
  | AutoAdjust
  | AdjustLevels real real
  | Threshold real
  | ColorCorrection real real
  | SketchEffect
  | Dither DitheringAlgorithm

fun runTransform :: "Transform \<Rightarrow> Store \<Rightarrow> ImageRef \<Rightarrow> Store \<times> ImageRef" where
  "runTransform ToGrayscale s imageData = toGrayscale_st s imageData"
| "runTransform (AdjustBrightness amount) s imageData = adjustBrightness_st s imageData amount"
| "runTransform (AdjustContrast amount) s imageData = adjustContrast_st s imageData amount"
| "runTransform (AdjustGamma gammaValue) s imageData = adjustGamma_st s imageData gammaValue"
| "runTransform Invert s imageData = invert_st s imageData"
| "runTransform MirrorHorizontal s imageData = mirrorHorizontal_st s imageData"
| "runTransform (UnsharpMask radius amount thresholdValue) s imageData =
     unsharpMask_st s imageData radius amount thresholdValue"
| "runTransform (EdgeEnhance strength) s imageData = edgeEnhance_st s imageData strength"
| "runTransform (Denoise strength) s imageData = denoise_st s imageData strength"
| "runTransform AutoAdjust s imageData = autoAdjust_st s imageData"
| "runTransform (AdjustLevels blackPoint whitePoint) s imageData =
     adjustLevels_st s imageData blackPoint whitePoint"
| "runTransform (Threshold thresholdValue) s imageData = threshold_st s imageData thresholdValue"
| "runTransform (ColorCorrection lift compress) s imageData =
     colorCorrection_st s imageData lift compress"
| "runTransform SketchEffect s imageData = sketchEffect_st s imageData"
| "runTransform (Dither algorithm) s imageData = ditheringAlgorithms_st algorithm s imageData"

section \<open>Presets (\<open>presets.ts\<close>)\<close>

text \<open>
  The optional fields of \<open>adjustments\<close> are options. Four of them bear the name of
  the adjustment function they switch on and carry the suffix \<open>Opt\<close> here. Of a
  preset the model keeps what \<open>applyPreset\<close> reads: the adjustments and the
  dithering algorithm (and the id, named \<open>presetId\<close>); the name, the description,
  the tip, the laser types and the materials are left out.
\<close>

record Adjustments =
  brightness :: "real option"
  contrast :: "real option"
  gamma :: "real option"
  sharpenAmount :: "real option"
  sharpenRadius :: "int option"
  denoiseOpt :: "real option"
  autoAdjustOpt :: "bool option"
  colorCorrectionOpt :: "bool option"
  shadowLift :: "real option"
  highlightCompress :: "real option"
  edgeEnhanceOpt :: "real option"

record PresetConfig =
  presetId :: string
  adjustments :: Adjustments
  ditheringAlgorithm :: DitheringAlgorithm

definition noAdjustments :: Adjustments where
  "noAdjustments =
     \<lparr>brightness = None, contrast = None, gamma = None, sharpenAmount = None,
      sharpenRadius = None, denoiseOpt = None, autoAdjustOpt = None, colorCorrectionOpt = None,
      shadowLift = None, highlightCompress = None, edgeEnhanceOpt = None\<rparr>"

definition presets :: "(string \<times> PresetConfig) list" where
  "presets =
     [(''photoRealism'',
       \<lparr>presetId = ''photoRealism'',
        adjustments = noAdjustments\<lparr>contrast := Some 15, gamma := Some 1.1,
          sharpenAmount := Some 80, sharpenRadius := Some 1, autoAdjustOpt := Some True\<rparr>,
        ditheringAlgorithm = JarvisJudiceNinke\<rparr>),
      (''trueTone'',
       \<lparr>presetId = ''trueTone'',
        adjustments = noAdjustments\<lparr>autoAdjustOpt := Some True, sharpenAmount := Some 40,
          gamma := Some 1.0\<rparr>,
        ditheringAlgorithm = JarvisJudiceNinke\<rparr>),
      (''deepBurn'',
       \<lparr>presetId = ''deepBurn'',
        adjustments = noAdjustments\<lparr>contrast := Some 25, colorCorrectionOpt := Some True,
          shadowLift := Some 30, highlightCompress := Some 15, sharpenAmount := Some 100\<rparr>,
        ditheringAlgorithm = Stucki\<rparr>),
      (''softDetail'',
       \<lparr>presetId = ''softDetail'',
        adjustments = noAdjustments\<lparr>gamma := Some 1.05, sharpenAmount := Some 60,
          sharpenRadius := Some 1, edgeEnhanceOpt := Some 0.5\<rparr>,
        ditheringAlgorithm = Sierra\<rparr>),
      (''stoneSlate'',
       \<lparr>presetId = ''stoneSlate'',
        adjustments = noAdjustments\<lparr>denoiseOpt := Some 25, edgeEnhanceOpt := Some 1.2,
          sharpenAmount := Some 70, contrast := Some 20\<rparr>,
        ditheringAlgorithm = Stucki\<rparr>),
      (''glassAcrylic'',
       \<lparr>presetId = ''glassAcrylic'',
        adjustments = noAdjustments\<lparr>colorCorrectionOpt := Some True, shadowLift := Some 40,
          highlightCompress := Some 20, contrast := Some 35, sharpenAmount := Some 120\<rparr>,
        ditheringAlgorithm = Stucki\<rparr>),
      (''forgiving'',
       \<lparr>presetId = ''forgiving'',
        adjustments = noAdjustments\<lparr>sharpenAmount := Some 50, gamma := Some 1.05,
          contrast := Some 10\<rparr>,
        ditheringAlgorithm = Sierra\<rparr>),
      (''edgePop'',
       \<lparr>presetId = ''edgePop'',
        adjustments = noAdjustments\<lparr>colorCorrectionOpt := Some True, shadowLift := Some 15,
          edgeEnhanceOpt := Some 0.8, sharpenAmount := Some 90\<rparr>,
        ditheringAlgorithm = Burkes\<rparr>),
      (''highContrast'',
       \<lparr>presetId = ''highContrast'',
        adjustments = noAdjustments\<lparr>contrast := Some 40, brightness := Some 10,
          sharpenAmount := Some 150, sharpenRadius := Some 2\<rparr>,
        ditheringAlgorithm = FloydSteinberg\<rparr>),
      (''pencilSketch'',
       \<lparr>presetId = ''pencilSketch'',
        adjustments = noAdjustments,
        ditheringAlgorithm = Atkinson\<rparr>)]"

text \<open>
  \<open>presets[presetName]\<close> reads a property of an object literal: an own property
  when the name is a key of the table, otherwise whatever the name means on
  \<open>Object.prototype\<close> (a function or an object, both truthy and without
  \<open>adjustments\<close>), otherwise \<open>undefined\<close>.
\<close>

definition objectPrototypeKeys :: "string list" where
  "objectPrototypeKeys =
     [''constructor'', ''__defineGetter__'', ''__defineSetter__'', ''hasOwnProperty'',
      ''__lookupGetter__'', ''__lookupSetter__'', ''isPrototypeOf'', ''propertyIsEnumerable'',
      ''toString'', ''valueOf'', ''__proto__'', ''toLocaleString'']"

datatype 'a property = Own 'a | Inherited | Undefined

definition lookupPreset :: "string \<Rightarrow> PresetConfig property" where
  "lookupPreset presetName =
     (case map_of presets presetName of
        Some preset \<Rightarrow> Own preset
      | None \<Rightarrow> if presetName \<in> set objectPrototypeKeys then Inherited else Undefined)"

text \<open>
  The errors \<open>applyPreset\<close> can throw: its own \<open>Error("Unknown preset: ...")\<close>, and the
  \<open>TypeError\<close> of reading \<open>adj.autoAdjust\<close> when \<open>adj\<close> is undefined, which is what
  an inherited property leads to once the image has been converted to gray.
\<close>

datatype error = UnknownPreset string | TypeError

definition runPreset :: "PresetConfig \<Rightarrow> string \<Rightarrow> ProcessingImageData \<Rightarrow> ProcessingImageData" where
  "runPreset preset presetName imageData =
     (let result = \<lparr>width = width imageData, height = height imageData, data = data imageData\<rparr>;
          adj = adjustments preset;
          result = toGrayscale result
      in if presetName = ''pencilSketch''
         then ditheringAlgorithms (ditheringAlgorithm preset) (sketchEffect result)
         else
           (let result = (case autoAdjustOpt adj of Some True \<Rightarrow> autoAdjust result | _ \<Rightarrow> result);
                result = (case colorCorrectionOpt adj of
                            Some True \<Rightarrow>
                              colorCorrection result
                                (case shadowLift adj of Some v \<Rightarrow> v | None \<Rightarrow> 20)
                                (case highlightCompress adj of Some v \<Rightarrow> v | None \<Rightarrow> 10)
                          | _ \<Rightarrow> result);
                result = (case denoiseOpt adj of
                            Some v \<Rightarrow> if v > 0 then denoise result v else result
                          | None \<Rightarrow> result);
                result = (case gamma adj of
                            Some v \<Rightarrow> if v \<noteq> 0 \<and> v \<noteq> 1.0 then adjustGamma result v else result
                          | None \<Rightarrow> result);
                result = (case brightness adj of
                            Some v \<Rightarrow> if v \<noteq> 0 then adjustBrightness result v else result
                          | None \<Rightarrow> result);
                result = (case contrast adj of
                            Some v \<Rightarrow> if v \<noteq> 0 then adjustContrast result v else result
                          | None \<Rightarrow> result);
                result = (case edgeEnhanceOpt adj of
                            Some v \<Rightarrow> if v > 0 then edgeEnhance result v else result
                          | None \<Rightarrow> result);
                result = (case sharpenAmount adj of
                            Some v \<Rightarrow>
                              if v > 0
                              then unsharpMask result
                                     (case sharpenRadius adj of Some r \<Rightarrow> r | None \<Rightarrow> 1) v 0
                              else result
                          | None \<Rightarrow> result)
            in ditheringAlgorithms (ditheringAlgorithm preset) result))"

definition applyPreset :: "ProcessingImageData \<Rightarrow> string \<Rightarrow> error + ProcessingImageData" where
  "applyPreset imageData presetName =
     (case lookupPreset presetName of
        Undefined \<Rightarrow> Inl (UnknownPreset presetName)
      | Inherited \<Rightarrow> Inl TypeError
      | Own preset \<Rightarrow> Inr (runPreset preset presetName imageData))"

section \<open>Auxiliary notions for the proofs\<close>

text \<open>
  Pixel \<open>i\<close> of a result is \<^emph>\<open>done\<close> when its three colour bytes are equal and are 0
  or 255 and its alpha byte is the input's; a result is done up to \<open>k\<close> when it has
  the input's length and its first \<open>k\<close> pixels are done.
\<close>

definition pixelDone :: "u8 list \<Rightarrow> u8 list \<Rightarrow> nat \<Rightarrow> bool" where
  "pixelDone d res i \<longleftrightarrow>
     (res ! (i * 4) = 0 \<or> res ! (i * 4) = 255) \<and> res ! (i * 4 + 1) = res ! (i * 4)
     \<and> res ! (i * 4 + 2) = res ! (i * 4) \<and> res ! (i * 4 + 3) = d ! (i * 4 + 3)"

definition doneUpTo :: "u8 list \<Rightarrow> nat \<Rightarrow> u8 list \<Rightarrow> bool" where
  "doneUpTo d k res \<longleftrightarrow> length res = length d \<and> (\<forall>i<k. pixelDone d res i)"

definition grayPair :: ProcessingImageData where
  "grayPair = \<lparr>width = 2, height = 1, data = [100, 100, 100, 255, 200, 200, 200, 128]\<rparr>"

text \<open>
  The byte that ordered dithering leaves at index \<open>j\<close> of its result: the alpha byte
  is the input's, a colour byte is the comparison of the pixel's gray with the matrix
  entry of its position.
\<close>

definition orderedValue :: "nat list list \<Rightarrow> nat \<Rightarrow> nat \<Rightarrow> u8 list \<Rightarrow> nat \<Rightarrow> u8" where
  "orderedValue bayerMatrix msize w d j =
     (let k = j div 4 in
      if j mod 4 = 3 then d ! j
      else toUint8Clamp
        (if getGray d (k * 4) > real (bayerMatrix ! ((k div w) mod msize) ! ((k mod w) mod msize))
         then 255 else 0))"

text \<open>Example inputs: a single opaque white pixel, and a column of four of them.\<close>

definition whiteDot :: ProcessingImageData where
  "whiteDot = \<lparr>width = 1, height = 1, data = [255, 255, 255, 255]\<rparr>"

definition whiteStrip :: ProcessingImageData where
  "whiteStrip = \<lparr>width = 1, height = 4,
     data = [255, 255, 255, 255, 255, 255, 255, 255, 255, 255, 255, 255, 255, 255, 255, 255]\<rparr>"

text \<open>
  Notions for stating what a function leaves at pixel \<open>(x, y)\<close>: the four bytes of
  the pixel, its alpha-aware gray as binary64 computes it, and whether it lies on
  the border of the image.
\<close>

definition rgba :: "ProcessingImageData \<Rightarrow> nat \<Rightarrow> nat \<Rightarrow> u8 \<times> u8 \<times> u8 \<times> u8" where
  "rgba imageData x y =
     (let i = (y * width imageData + x) * 4; d = data imageData
      in (d ! i, d ! (i + 1), d ! (i + 2), d ! (i + 3)))"

definition grayAt :: "ProcessingImageData \<Rightarrow> nat \<Rightarrow> nat \<Rightarrow> real" where
  "grayAt imageData x y = getGrayOnWhite64 (data imageData) ((y * width imageData + x) * 4)"

definition onBorder :: "ProcessingImageData \<Rightarrow> nat \<Rightarrow> nat \<Rightarrow> bool" where
  "onBorder imageData x y \<longleftrightarrow>
     x = 0 \<or> x = width imageData - 1 \<or> y = 0 \<or> y = height imageData - 1"

text \<open>
  The condition of the contour claim: the pixel's gray is below the threshold and
  one of its four neighbours has a gray at or above it.
\<close>

definition contourPixel :: "ProcessingImageData \<Rightarrow> real \<Rightarrow> nat \<Rightarrow> nat \<Rightarrow> bool" where
  "contourPixel imageData thresholdValue x y \<longleftrightarrow>
     grayAt imageData x y < thresholdValue
     \<and> (grayAt imageData (x - 1) y \<ge> thresholdValue \<or> grayAt imageData (x + 1) y \<ge> thresholdValue
        \<or> grayAt imageData x (y - 1) \<ge> thresholdValue \<or> grayAt imageData x (y + 1) \<ge> thresholdValue)"

text \<open>
  Example input: a 3x3 opaque image, white but for its centre, which is the gray
  \<open>(128, 128, 128)\<close>. In binary64 the gray value of the centre is just below 128.
\<close>

definition grayCentre :: ProcessingImageData where
  "grayCentre = \<lparr>width = 3, height = 3,
     data = [255, 255, 255, 255,  255, 255, 255, 255,  255, 255, 255, 255,
             255, 255, 255, 255,  128, 128, 128, 255,  255, 255, 255, 255,
             255, 255, 255, 255,  255, 255, 255, 255,  255, 255, 255, 255]\<rparr>"









text \<open>The ten preset ids of the catalogue, as the specification lists them.\<close>

definition catalogue :: "string list" where
  "catalogue =
     [''photoRealism'', ''trueTone'', ''deepBurn'', ''softDetail'', ''stoneSlate'',
      ''glassAcrylic'', ''forgiving'', ''edgePop'', ''highContrast'', ''pencilSketch'']"

text \<open>Example input: a 4x4 buffer of opaque white pixels.\<close>

definition whiteSquare :: ProcessingImageData where
  "whiteSquare = \<lparr>width = 4, height = 4,
     data = [255, 255, 255, 255,  255, 255, 255, 255,  255, 255, 255, 255,  255, 255, 255, 255,
             255, 255, 255, 255,  255, 255, 255, 255,  255, 255, 255, 255,  255, 255, 255, 255,
             255, 255, 255, 255,  255, 255, 255, 255,  255, 255, 255, 255,  255, 255, 255, 255,
             255, 255, 255, 255,  255, 255, 255, 255,  255, 255, 255, 255,  255, 255, 255, 255]\<rparr>"

text \<open>
  Floyd-Steinberg in the words of the claim. The accumulator is a function of the
  pixel position, holds one binary32 number for each pixel and starts as the
  alpha-aware gray of every pixel. The pixels are scanned row by row from the top,
  each row from the left. At a pixel the accumulated value is quantised to 0 below
  128 and to 255 otherwise; the error, old minus new, goes to the right neighbour
  with weight 7/16, to the one below left with 3/16, to the one below with 5/16
  and to the one below right with 1/16; a neighbour outside the image gets nothing
  and its share is dropped. A weight \<open>k/16\<close> is a numerator \<open>k\<close> over the divisor 16:
  the share of a neighbour is the error times \<open>k\<close>, divided by 16, in binary64.
\<close>

definition fsWeights :: "((int \<times> int) \<times> real) list" where
  "fsWeights = [((1, 0), 7), ((- 1, 1), 3), ((0, 1), 5), ((1, 1), 1)]"

definition inBounds :: "nat \<Rightarrow> nat \<Rightarrow> int \<times> int \<Rightarrow> bool" where
  "inBounds w h p \<longleftrightarrow> 0 \<le> fst p \<and> fst p < int w \<and> 0 \<le> snd p \<and> snd p < int h"

definition specDistribute ::
  "nat \<Rightarrow> nat \<Rightarrow> int \<times> int \<Rightarrow> real \<Rightarrow> (int \<times> int \<Rightarrow> real) \<Rightarrow> (int \<times> int \<Rightarrow> real)" where
  "specDistribute w h p err acc =
     fold (\<lambda>offset acc.
        (let q = (fst p + fst (fst offset), snd p + snd (fst offset)) in
         if inBounds w h q
         then acc(q := fround (fl64 (acc q + fl64 (fl64 (err * snd offset) / 16)))) else acc))
       fsWeights acc"

definition specStep ::
  "nat \<Rightarrow> nat \<Rightarrow> int \<times> int \<Rightarrow> (int \<times> int \<Rightarrow> real) \<times> (int \<times> int \<rightharpoonup> real)
   \<Rightarrow> (int \<times> int \<Rightarrow> real) \<times> (int \<times> int \<rightharpoonup> real)" where
  "specStep w h p st =
     (let old = fst st p;
          new = (if old < 128 then 0 else 255)
      in (specDistribute w h p (fl64 (old - new)) (fst st), (snd st)(p \<mapsto> new)))"

definition scanOrder :: "nat \<Rightarrow> nat \<Rightarrow> (int \<times> int) list" where
  "scanOrder w h = concat (map (\<lambda>y. map (\<lambda>x. (int x, int y)) [0..<w]) [0..<h])"

definition specFloydSteinberg :: "ProcessingImageData \<Rightarrow> (int \<times> int \<rightharpoonup> real)" where
  "specFloydSteinberg imageData =
     snd (fold (specStep (width imageData) (height imageData))
            (scanOrder (width imageData) (height imageData))
            (\<lambda>p. fround (grayAt imageData (nat (fst p)) (nat (snd p))), Map.empty))"

text \<open>
  Example input: two pixels side by side. The first is quantised to white and hands
  a negative error to the second, whose accumulated value then lies just below 128
  in binary32, and at 128 over the reals.
\<close>

definition tippingPair :: ProcessingImageData where
  "tippingPair = \<lparr>width = 2, height = 1, data = [153, 153, 153, 254, 6, 248, 220, 255]\<rparr>"

text \<open>
  The flat accumulator of the function and the accumulator of the description
  agree when they hold the same number at every pixel.
\<close>

definition accAgree :: "nat \<Rightarrow> nat \<Rightarrow> real list \<Rightarrow> (int \<times> int \<Rightarrow> real) \<Rightarrow> bool" where
  "accAgree w h errors acc \<longleftrightarrow>
     length errors = h * w \<and> (\<forall>j<h * w. errors ! j = acc (int (j mod w), int (j div w)))"

text \<open>
  The relation between the two runs after \<open>k\<close> pixels: the accumulators agree at
  every pixel, and every pixel already visited carries in the result the value the
  description assigns to it, on its three colour bytes.
\<close>

definition fsAgree ::
  "nat \<Rightarrow> nat \<Rightarrow> nat \<Rightarrow> real list \<times> u8 list
   \<Rightarrow> (int \<times> int \<Rightarrow> real) \<times> (int \<times> int \<rightharpoonup> real) \<Rightarrow> bool" where
  "fsAgree w h k st sp \<longleftrightarrow>
     length (fst st) = h * w \<and> length (snd st) = h * w * 4
     \<and> (\<forall>j<h * w. fst st ! j = fst sp (int (j mod w), int (j div w)))
     \<and> (\<forall>j<k. snd sp (int (j mod w), int (j div w)) = Some (num (snd st ! (j * 4)))
              \<and> snd st ! (j * 4 + 1) = snd st ! (j * 4)
              \<and> snd st ! (j * 4 + 2) = snd st ! (j * 4))"

text \<open>
  A store \<open>s'\<close> keeps the arrays below \<open>n\<close> of a store \<open>s\<close> when it has every array of
  \<open>s\<close> at an address below \<open>n\<close> unchanged and has freed nothing. A call allocates
  its result when it keeps every array that existed before it and returns an
  array that did not.
\<close>

definition keeps :: "nat \<Rightarrow> Store \<Rightarrow> Store \<Rightarrow> bool" where
  "keeps n s s' \<longleftrightarrow> nextFree s \<le> nextFree s' \<and> (\<forall>a<n. buffers s' a = buffers s a)"

definition allocatesResult :: "Store \<Rightarrow> Store \<times> ImageRef \<Rightarrow> bool" where
  "allocatesResult s r \<longleftrightarrow>
     keeps (nextFree s) s (fst r) \<and> nextFree s \<le> refData (snd r)
     \<and> refData (snd r) < nextFree (fst r)"

text \<open>Example input: a store holding one array, the data of a 1x1 buffer.\<close>

definition oneArray :: Store where
  "oneArray = \<lparr>buffers = (\<lambda>a. [])(0 := [10, 20, 30, 255]), nextFree = 1\<rparr>"

definition firstImage :: ImageRef where
  "firstImage = \<lparr>refWidth = 1, refHeight = 1, refData = 0\<rparr>"

text \<open>
  The relation that ties a run over the store to a run over array contents: the
  array being written, at address \<open>r\<close>, holds the contents \<open>res\<close>, and every other
  array is as in the store \<open>s\<close> the run started from.
\<close>

definition writes :: "nat \<Rightarrow> Store \<Rightarrow> Store \<Rightarrow> u8 list \<Rightarrow> bool" where
  "writes r s t res \<longleftrightarrow> buffers t r = res \<and> (\<forall>a. a \<noteq> r \<longrightarrow> buffers t a = buffers s a)"

text \<open>The same calls on array contents.\<close>

fun applyTransform :: "Transform \<Rightarrow> ProcessingImageData \<Rightarrow> ProcessingImageData" where
  "applyTransform ToGrayscale imageData = toGrayscale imageData"
| "applyTransform (AdjustBrightness amount) imageData = adjustBrightness imageData amount"
| "applyTransform (AdjustContrast amount) imageData = adjustContrast imageData amount"
| "applyTransform (AdjustGamma gammaValue) imageData = adjustGamma imageData gammaValue"
| "applyTransform Invert imageData = invert imageData"
| "applyTransform MirrorHorizontal imageData = mirrorHorizontal imageData"
| "applyTransform (UnsharpMask radius amount thresholdValue) imageData =
     unsharpMask imageData radius amount thresholdValue"
| "applyTransform (EdgeEnhance strength) imageData = edgeEnhance imageData strength"
| "applyTransform (Denoise strength) imageData = denoise imageData strength"
| "applyTransform AutoAdjust imageData = autoAdjust imageData"
| "applyTransform (AdjustLevels blackPoint whitePoint) imageData =
     adjustLevels imageData blackPoint whitePoint"
| "applyTransform (Threshold thresholdValue) imageData = threshold imageData thresholdValue"
| "applyTransform (ColorCorrection lift compress) imageData =
     colorCorrection imageData lift compress"
| "applyTransform SketchEffect imageData = sketchEffect imageData"
| "applyTransform (Dither algorithm) imageData = ditheringAlgorithms algorithm imageData"

section \<open>Rounding to a binary format\<close>

lemma powi_nonneg: "0 \<le> n \<Longrightarrow> (2::real) powi n = 2 ^ nat n"
  by (simp add: power_int_def)

lemma powi_nonpos: "0 \<le> n \<Longrightarrow> (2::real) powi (- n) = 1 / 2 ^ nat n"
  by (simp add: power_int_minus powi_nonneg field_simps)

lemma exponentOf_bounds:
  assumes "x \<noteq> 0"
  shows "2 powi exponentOf x \<le> \<bar>x\<bar>" and "\<bar>x\<bar> < 2 powi (exponentOf x + 1)"
proof -
  show "2 powi exponentOf x \<le> \<bar>x\<bar>"
  proof (cases "1 \<le> \<bar>x\<bar>")
    case True
    then have pos: "0 < \<lfloor>\<bar>x\<bar>\<rfloor>" by linarith
    from bitlen_bounds [OF pos] have "2 ^ nat (bitlen \<lfloor>\<bar>x\<bar>\<rfloor> - 1) \<le> \<lfloor>\<bar>x\<bar>\<rfloor>" by simp
    then have "real_of_int (2 ^ nat (bitlen \<lfloor>\<bar>x\<bar>\<rfloor> - 1)) \<le> \<bar>x\<bar>"
      by (meson le_floor_iff)
    moreover have "1 \<le> bitlen \<lfloor>\<bar>x\<bar>\<rfloor>" using pos by (auto simp: bitlen_alt_def)
    ultimately show ?thesis using True by (simp add: exponentOf_def powi_nonneg)
  next
    case False
    let ?c = "\<lceil>1 / \<bar>x\<bar>\<rceil>"
    from False assms have y: "1 < 1 / \<bar>x\<bar>" by simp
    then have c: "2 \<le> ?c" by linarith
    then have pos: "0 < ?c - 1" by simp
    from bitlen_bounds [OF pos] have "?c - 1 < 2 ^ nat (bitlen (?c - 1))" by simp
    then have "?c \<le> 2 ^ nat (bitlen (?c - 1))" by simp
    then have "real_of_int ?c \<le> 2 ^ nat (bitlen (?c - 1))"
      by (metis of_int_le_iff of_int_numeral of_int_power)
    then have "1 / \<bar>x\<bar> \<le> 2 ^ nat (bitlen (?c - 1))" by linarith
    then have "1 / 2 ^ nat (bitlen (?c - 1)) \<le> \<bar>x\<bar>"
      using assms by (simp add: field_simps)
    moreover have "0 \<le> bitlen (?c - 1)" by (rule bitlen_nonneg)
    ultimately show ?thesis using False
      by (simp add: exponentOf_def powi_nonpos)
  qed
  show "\<bar>x\<bar> < 2 powi (exponentOf x + 1)"
  proof (cases "1 \<le> \<bar>x\<bar>")
    case True
    then have pos: "0 < \<lfloor>\<bar>x\<bar>\<rfloor>" by linarith
    from bitlen_bounds [OF pos] have "\<lfloor>\<bar>x\<bar>\<rfloor> < 2 ^ nat (bitlen \<lfloor>\<bar>x\<bar>\<rfloor>)" by simp
    then have "\<bar>x\<bar> < real_of_int (2 ^ nat (bitlen \<lfloor>\<bar>x\<bar>\<rfloor>))"
      by (meson floor_less_iff)
    moreover have "0 \<le> bitlen \<lfloor>\<bar>x\<bar>\<rfloor>" by (rule bitlen_nonneg)
    ultimately show ?thesis using True by (simp add: exponentOf_def powi_nonneg)
  next
    case False
    let ?c = "\<lceil>1 / \<bar>x\<bar>\<rceil>"
    from False assms have y: "1 < 1 / \<bar>x\<bar>" by simp
    then have c: "2 \<le> ?c" by linarith
    then have pos: "0 < ?c - 1" by simp
    have one: "1 \<le> bitlen (?c - 1)" using pos by (auto simp: bitlen_alt_def)
    from bitlen_bounds [OF pos] have "2 ^ nat (bitlen (?c - 1) - 1) \<le> ?c - 1" by simp
    then have "real_of_int (2 ^ nat (bitlen (?c - 1) - 1)) \<le> real_of_int (?c - 1)"
      by (simp only: of_int_le_iff)
    moreover have "real_of_int (?c - 1) < 1 / \<bar>x\<bar>" by linarith
    ultimately have "2 ^ nat (bitlen (?c - 1) - 1) < 1 / \<bar>x\<bar>" by simp
    then have "\<bar>x\<bar> < 1 / 2 ^ nat (bitlen (?c - 1) - 1)"
      using assms by (simp add: field_simps)
    moreover have "(2::real) powi (- bitlen (?c - 1) + 1) = 1 / 2 ^ nat (bitlen (?c - 1) - 1)"
      using powi_nonpos [of "bitlen (?c - 1) - 1"] one by simp
    ultimately show ?thesis using False
      by (simp only: exponentOf_def if_False)
  qed
qed


lemma roundHalfEven_of_int: "roundHalfEven (of_int n) = n"
  by (simp add: roundHalfEven_def)

lemma roundHalfEven_0: "roundHalfEven 0 = 0"
  using roundHalfEven_of_int [of 0] by simp

lemma powi_less_cancel: "(2::real) powi a < 2 powi b \<Longrightarrow> a < b"
  using power_int_increasing [of b a "2::real"] by (cases "a < b") simp_all

lemma roundHalfEven_cases: "roundHalfEven v = \<lfloor>v\<rfloor> \<or> roundHalfEven v = \<lfloor>v\<rfloor> + 1"
  by (simp add: roundHalfEven_def Let_def)

lemma roundHalfEven_mono:
  assumes "x \<le> y"
  shows "roundHalfEven x \<le> roundHalfEven y"
proof (cases "\<lfloor>x\<rfloor> = \<lfloor>y\<rfloor>")
  case True
  have "x - of_int \<lfloor>x\<rfloor> \<le> y - of_int \<lfloor>x\<rfloor>" using assms by simp
  then show ?thesis unfolding roundHalfEven_def Let_def True [symmetric]
    by (simp only: split: if_splits) auto
next
  case False
  then have "\<lfloor>x\<rfloor> < \<lfloor>y\<rfloor>" using floor_mono [OF assms] by simp
  then have "\<lfloor>x\<rfloor> + 1 \<le> \<lfloor>y\<rfloor>" by simp
  moreover have "roundHalfEven x \<le> \<lfloor>x\<rfloor> + 1" using roundHalfEven_cases [of x] by auto
  moreover have "\<lfloor>y\<rfloor> \<le> roundHalfEven y" using roundHalfEven_cases [of y] by auto
  ultimately show ?thesis by linarith
qed

lemma roundHalfEven_error: "\<bar>of_int (roundHalfEven v) - v\<bar> \<le> 1 / 2"
  unfolding roundHalfEven_def Let_def by (simp only: split: if_splits) (auto; linarith)

text \<open>The quantum: the spacing of the representable numbers around \<open>x\<close>.\<close>

lemma powi_multiple:
  assumes "j \<le> e"
  shows "(2::real) powi e = of_int (2 ^ nat (e - j)) * 2 powi j"
proof -
  have "(2::real) powi e = 2 powi (e - j) * 2 powi j"
    by (simp add: power_int_add [symmetric])
  then show ?thesis using assms by (simp add: powi_nonneg)
qed

lemma grid_le:
  assumes "x \<le> of_int N * q" and "0 < q"
  shows "of_int (roundHalfEven (x / q)) * q \<le> of_int N * q"
proof -
  have "x / q \<le> of_int N" using assms by (simp add: field_simps)
  from roundHalfEven_mono [OF this] show ?thesis
    using assms(2) by (simp add: roundHalfEven_of_int)
qed

lemma grid_ge:
  assumes "of_int N * q \<le> x" and "0 < q"
  shows "of_int N * q \<le> of_int (roundHalfEven (x / q)) * q"
proof -
  have "of_int N \<le> x / q" using assms by (simp add: field_simps)
  from roundHalfEven_mono [OF this] show ?thesis
    using assms(2) by (simp add: roundHalfEven_of_int)
qed

lemma exponentOf_abs_mono:
  assumes "x \<noteq> 0" and "\<bar>x\<bar> \<le> \<bar>y\<bar>"
  shows "exponentOf x \<le> exponentOf y"
proof -
  have y: "y \<noteq> 0" using assms by auto
  have "(2::real) powi exponentOf x < 2 powi (exponentOf y + 1)"
    using exponentOf_bounds(1) [OF assms(1)] exponentOf_bounds(2) [OF y] assms(2) by linarith
  then have "exponentOf x < exponentOf y + 1"
    by (rule powi_less_cancel)
  then show ?thesis by simp
qed

lemma roundTo_nonneg: "0 \<le> x \<Longrightarrow> 0 \<le> roundTo p emin x"
proof -
  assume x: "0 \<le> x"
  have "0 \<le> roundHalfEven (x / 2 powi (max (exponentOf x) emin - int p + 1))"
    using roundHalfEven_mono [of 0 "x / 2 powi (max (exponentOf x) emin - int p + 1)"] x
    by (simp add: roundHalfEven_0)
  then show ?thesis by (simp add: roundTo_def Let_def)
qed

lemma roundTo_nonpos: "x \<le> 0 \<Longrightarrow> roundTo p emin x \<le> 0"
proof -
  assume x: "x \<le> 0"
  have "roundHalfEven (x / 2 powi (max (exponentOf x) emin - int p + 1)) \<le> 0"
    using roundHalfEven_mono [of "x / 2 powi (max (exponentOf x) emin - int p + 1)" 0] x
    by (simp add: divide_nonpos_pos roundHalfEven_0)
  then show ?thesis by (simp add: roundTo_def Let_def mult_nonpos_nonneg)
qed

lemma roundTo_mono_pos:
  assumes "0 < x" and "x \<le> y" and "0 < p"
  shows "roundTo p emin x \<le> roundTo p emin y"
proof -
  define jx where "jx = max (exponentOf x) emin - int p + 1"
  define jy where "jy = max (exponentOf y) emin - int p + 1"
  have y: "0 < y" using assms by simp
  have ex: "exponentOf x \<le> exponentOf y"
    using exponentOf_abs_mono [of x y] assms by simp
  then have j: "jx \<le> jy" by (simp add: jx_def jy_def)
  have rx: "roundTo p emin x = of_int (roundHalfEven (x / 2 powi jx)) * 2 powi jx"
    using assms(1) by (simp add: roundTo_def Let_def jx_def)
  have ry: "roundTo p emin y = of_int (roundHalfEven (y / 2 powi jy)) * 2 powi jy"
    using y by (simp add: roundTo_def Let_def jy_def)
  show ?thesis
  proof (cases "jx = jy")
    case True
    have "x / 2 powi jy \<le> y / 2 powi jy" using assms(2) by (simp add: divide_right_mono)
    from roundHalfEven_mono [OF this] show ?thesis unfolding rx ry True by simp
  next
    case False
    then have lt: "jx < jy" using j by simp
    then have big: "emin < exponentOf y" "exponentOf x < exponentOf y"
      by (auto simp: jx_def jy_def max_def split: if_splits)
    let ?e = "exponentOf y"
    have "jx \<le> ?e" using big assms(3) by (simp add: jx_def)
    note mx = powi_multiple [OF this]
    have "jy \<le> ?e" using big assms(3) by (simp add: jy_def)
    note my = powi_multiple [OF this]
    have "x < 2 powi (exponentOf x + 1)" using exponentOf_bounds(2) [of x] assms(1) by simp
    also have "\<dots> \<le> 2 powi ?e" using big(2) by (simp add: power_int_increasing)
    finally have "x \<le> 2 powi ?e" by simp
    then have "roundTo p emin x \<le> 2 powi ?e"
      unfolding rx using grid_le [of x "2 ^ nat (?e - jx)" "2 powi jx"] mx by simp
    moreover have "2 powi ?e \<le> y" using exponentOf_bounds(1) [of y] y by simp
    then have "2 powi ?e \<le> roundTo p emin y"
      unfolding ry using grid_ge [of "2 ^ nat (?e - jy)" "2 powi jy" y] my by simp
    ultimately show ?thesis by linarith
  qed
qed

lemma roundTo_mono_neg:
  assumes "y < 0" and "x \<le> y" and "0 < p"
  shows "roundTo p emin x \<le> roundTo p emin y"
proof -
  define jx where "jx = max (exponentOf x) emin - int p + 1"
  define jy where "jy = max (exponentOf y) emin - int p + 1"
  have x: "x < 0" using assms by simp
  have ex: "exponentOf y \<le> exponentOf x"
    using exponentOf_abs_mono [of y x] assms by simp
  then have j: "jy \<le> jx" by (simp add: jx_def jy_def)
  have rx: "roundTo p emin x = of_int (roundHalfEven (x / 2 powi jx)) * 2 powi jx"
    using x by (simp add: roundTo_def Let_def jx_def)
  have ry: "roundTo p emin y = of_int (roundHalfEven (y / 2 powi jy)) * 2 powi jy"
    using assms(1) by (simp add: roundTo_def Let_def jy_def)
  show ?thesis
  proof (cases "jx = jy")
    case True
    have "x / 2 powi jy \<le> y / 2 powi jy" using assms(2) by (simp add: divide_right_mono)
    from roundHalfEven_mono [OF this] show ?thesis unfolding rx ry True by simp
  next
    case False
    then have lt: "jy < jx" using j by simp
    then have big: "emin < exponentOf x" "exponentOf y < exponentOf x"
      by (auto simp: jx_def jy_def max_def split: if_splits)
    let ?e = "exponentOf x"
    have "jx \<le> ?e" using big assms(3) by (simp add: jx_def)
    note mx = powi_multiple [OF this]
    have "jy \<le> ?e" using big assms(3) by (simp add: jy_def)
    note my = powi_multiple [OF this]
    have "- y < 2 powi (exponentOf y + 1)" using exponentOf_bounds(2) [of y] assms(1) by simp
    also have "\<dots> \<le> 2 powi ?e" using big(2) by (simp add: power_int_increasing)
    finally have "- (2 powi ?e) \<le> y" by simp
    then have "- (2 powi ?e) \<le> roundTo p emin y"
      unfolding ry using grid_ge [of "- (2 ^ nat (?e - jy))" "2 powi jy" y] my by simp
    moreover have "x \<le> - (2 powi ?e)" using exponentOf_bounds(1) [of x] x by simp
    then have "roundTo p emin x \<le> - (2 powi ?e)"
      unfolding rx using grid_le [of x "- (2 ^ nat (?e - jx))" "2 powi jx"] mx by simp
    ultimately show ?thesis by linarith
  qed
qed

lemma roundTo_mono:
  assumes "x \<le> y" and "0 < p"
  shows "roundTo p emin x \<le> roundTo p emin y"
proof -
  consider "0 < x" | "y < 0" | "x \<le> 0" "0 \<le> y" by linarith
  then show ?thesis
  proof cases
    case 1 then show ?thesis by (rule roundTo_mono_pos [OF _ assms])
  next
    case 2 then show ?thesis by (rule roundTo_mono_neg [OF _ assms])
  next
    case 3
    then show ?thesis using roundTo_nonpos [of x p emin] roundTo_nonneg [of y p emin] by linarith
  qed
qed


lemma exponentOf_less:
  assumes "x \<noteq> 0" and "\<bar>x\<bar> < 2 powi k"
  shows "exponentOf x < k"
  using exponentOf_bounds(1) [OF assms(1)] assms(2) by (intro powi_less_cancel) linarith

lemma roundTo_fixed:
  assumes "x = of_int m * 2 powi k" and "\<bar>m\<bar> < 2 ^ p" and "emin - int p + 1 \<le> k"
  shows "roundTo p emin x = x"
proof (cases "x = 0")
  case True then show ?thesis by (simp add: roundTo_def)
next
  case False
  define j where "j = max (exponentOf x) emin - int p + 1"
  have "\<bar>x\<bar> = of_int \<bar>m\<bar> * 2 powi k" by (simp add: assms(1) abs_mult)
  also have "\<dots> < 2 ^ p * 2 powi k"
  proof -
    have "real_of_int \<bar>m\<bar> < real_of_int (2 ^ p)" using assms(2) by (simp only: of_int_less_iff)
    then show ?thesis by (intro mult_strict_right_mono) simp_all
  qed
  also have "\<dots> = 2 powi (int p + k)" by (simp add: power_int_add)
  finally have "exponentOf x < int p + k" by (rule exponentOf_less [OF False])
  then have j: "j \<le> k" using assms(3) by (simp add: j_def)
  have "x / 2 powi j = of_int m * 2 powi (k - j)"
    by (simp add: assms(1) power_int_diff)
  also have "\<dots> = of_int (m * 2 ^ nat (k - j))" using j by (simp add: powi_nonneg)
  finally have "roundHalfEven (x / 2 powi j) = m * 2 ^ nat (k - j)"
    by (simp only: roundHalfEven_of_int)
  then have "roundTo p emin x = of_int (m * 2 ^ nat (k - j)) * 2 powi j"
    using False by (simp add: roundTo_def Let_def j_def)
  also have "\<dots> = of_int m * (2 powi (k - j) * 2 powi j)"
    using j by (simp add: powi_nonneg)
  also have "\<dots> = x" by (simp add: assms(1) power_int_add [symmetric])
  finally show ?thesis .
qed

lemma roundTo_of_int:
  assumes "\<bar>m\<bar> < 2 ^ p" and "emin - int p + 1 \<le> 0"
  shows "roundTo p emin (of_int m) = of_int m"
  using roundTo_fixed [of "of_int m" m 0 p emin] assms by simp

lemma fl64_of_int: "\<bar>m\<bar> < 2 ^ 53 \<Longrightarrow> fl64 (of_int m) = of_int m"
proof -
  assume "\<bar>m\<bar> < 2 ^ 53"
  moreover have "- 1022 - int 53 + 1 \<le> 0" by simp
  ultimately show ?thesis unfolding fl64_def by (rule roundTo_of_int)
qed


lemma roundTo_error:
  assumes "\<bar>x\<bar> < 2 powi k" and "emin < k"
  shows "\<bar>roundTo p emin x - x\<bar> \<le> 2 powi (k - int p) / 2"
proof (cases "x = 0")
  case True then show ?thesis by (simp add: roundTo_def)
next
  case False
  define j where "j = max (exponentOf x) emin - int p + 1"
  have "exponentOf x < k" by (rule exponentOf_less [OF False assms(1)])
  then have j: "j \<le> k - int p" using assms(2) by (simp add: j_def)
  have q: "(0::real) < 2 powi j" by simp
  have "roundTo p emin x - x = (of_int (roundHalfEven (x / 2 powi j)) - x / 2 powi j) * 2 powi j"
    using False by (simp add: roundTo_def Let_def j_def field_simps)
  then have "\<bar>roundTo p emin x - x\<bar> = \<bar>of_int (roundHalfEven (x / 2 powi j)) - x / 2 powi j\<bar> * 2 powi j"
    by (simp add: abs_mult)
  also have "\<dots> \<le> 1 / 2 * 2 powi j"
    by (intro mult_right_mono roundHalfEven_error) simp
  also have "\<dots> \<le> 1 / 2 * 2 powi (k - int p)"
    using j by (intro mult_left_mono power_int_increasing) simp_all
  finally show ?thesis by simp
qed

lemma fl64_error: "\<bar>x\<bar> < 2 powi k \<Longrightarrow> - 1022 < k \<Longrightarrow> \<bar>fl64 x - x\<bar> \<le> 2 powi (k - 54)"
proof -
  assume a: "\<bar>x\<bar> < 2 powi k" "- 1022 < k"
  have "(2::real) powi (k - 53) / 2 = 2 powi (k - 54)"
    using power_int_add [of "2::real" "k - 54" 1] by simp
  with roundTo_error [OF a, of 53] show ?thesis by (simp add: fl64_def)
qed

lemma fl64_mono: "x \<le> y \<Longrightarrow> fl64 x \<le> fl64 y"
  unfolding fl64_def by (rule roundTo_mono) simp_all

lemma fround_mono: "x \<le> y \<Longrightarrow> fround x \<le> fround y"
  unfolding fround_def by (rule roundTo_mono) simp_all

text \<open>The rules that evaluate a rounding of a numeral.\<close>

lemmas fl_eval = fl64_def fround_def roundTo_def exponentOf_def compute_bitlen roundHalfEven_def
  Let_def power_int_minus

lemma luminance_white:
  "fl64 (fl64 (fl64 (fl64 0.299 * 255) + fl64 (fl64 0.587 * 255)) + fl64 (fl64 0.114 * 255)) = 255"
  by (simp add: fl_eval)

section \<open>Loops over index ranges\<close>

text \<open>
  A \<open>for\<close> loop over \<open>0 .. n - 1\<close> is a fold over \<open>[0..<n]\<close>; an invariant
  indexed by the loop counter is carried through it.
\<close>

lemma fold_upt_invariant:
  assumes "P 0 s" and "\<And>k t. k < n \<Longrightarrow> P k t \<Longrightarrow> P (Suc k) (f k t)"
  shows "P n (fold f [0..<n] s)"
  using assms
proof (induction n)
  case 0
  then show ?case by simp
next
  case (Suc n)
  have "P n (fold f [0..<n] s)"
    by (rule Suc.IH) (use Suc.prems in auto)
  then show ?case using Suc.prems(2)[of n] by simp
qed

text \<open>
  Nested loops over the rows and the columns visit the pixel indices
  \<open>k = y * w + x\<close> in increasing order.
\<close>


lemma row_upt_map: "[y * w..<y * w + w] = map (\<lambda>x. x + y * w) [0..<w]"
  using map_add_upt [of "y * w" w] by (simp add: add.commute)

lemma fold_row_shift:
  "fold (\<lambda>k. f (k mod w) (k div w)) [y * w..<y * w + w] s = fold (\<lambda>x. f x y) [0..<w] s"
proof -
  have "fold (\<lambda>k. f (k mod w) (k div w)) (map (\<lambda>x. x + y * w) [0..<w]) s
      = fold ((\<lambda>k. f (k mod w) (k div w)) \<circ> (\<lambda>x. x + y * w)) [0..<w] s"
    by (rule fold_map [THEN fun_cong])
  also have "\<dots> = fold (\<lambda>x. f x y) [0..<w] s"
  proof (rule fold_cong)
    fix x assume "x \<in> set [0..<w]"
    then have "x < w" by simp
    then show "((\<lambda>k. f (k mod w) (k div w)) \<circ> (\<lambda>x. x + y * w)) x = f x y"
      by simp
  qed simp_all
  finally show ?thesis by (simp only: row_upt_map)
qed

lemma nested_fold_flat:
  "fold (\<lambda>y. fold (\<lambda>x. f x y) [0..<w]) [0..<h] s
     = fold (\<lambda>k. f (k mod w) (k div w)) [0..<h * w] s"
proof (induction h)
  case 0
  then show ?case by simp
next
  case (Suc h)
  have "[0..<h * w + w] = [0..<h * w] @ [h * w..<h * w + w]"
    by (rule upt_add_eq_append) simp
  then have "[0..<Suc h * w] = [0..<h * w] @ [h * w..<h * w + w]"
    by (simp add: add.commute)
  then have "fold (\<lambda>k. f (k mod w) (k div w)) [0..<Suc h * w] s
      = fold (\<lambda>x. f x h) [0..<w] (fold (\<lambda>k. f (k mod w) (k div w)) [0..<h * w] s)"
    by (simp only: fold_append o_apply fold_row_shift)
  then show ?case
    using Suc.IH by simp
qed


lemma pixel_fold:
  fixes step :: "nat \<Rightarrow> 'a list \<Rightarrow> 'a list"
  assumes len: "length res0 = n"
    and step: "\<And>k res. k < m \<Longrightarrow> length res = n
        \<Longrightarrow> (\<forall>j. k * 4 \<le> j \<longrightarrow> j < n \<longrightarrow> res ! j = res0 ! j)
        \<Longrightarrow> length (step k res) = n
            \<and> (\<forall>j<n. step k res ! j
                  = (if k * 4 \<le> j \<and> j < k * 4 + 4 then G j else res ! j))"
  shows "length (fold step [0..<m] res0) = n
     \<and> (\<forall>j<n. fold step [0..<m] res0 ! j = (if j < m * 4 then G j else res0 ! j))"
proof (rule fold_upt_invariant
    [where P = "\<lambda>k res. length res = n \<and> (\<forall>j<n. res ! j = (if j < k * 4 then G j else res0 ! j))"])
  show "length res0 = n \<and> (\<forall>j<n. res0 ! j = (if j < 0 * 4 then G j else res0 ! j))"
    using len by simp
next
  fix k and t :: "'a list"
  assume k: "k < m"
    and inv: "length t = n \<and> (\<forall>j<n. t ! j = (if j < k * 4 then G j else res0 ! j))"
  have "length (step k t) = n
      \<and> (\<forall>j<n. step k t ! j = (if k * 4 \<le> j \<and> j < k * 4 + 4 then G j else t ! j))"
    using step [of k t] k inv by simp
  moreover have "(if k * 4 \<le> j \<and> j < k * 4 + 4 then G j
                  else if j < k * 4 then G j else res0 ! j)
              = (if j < Suc k * 4 then G j else res0 ! j)" for j
    by simp
  ultimately show "length (step k t) = n
      \<and> (\<forall>j<n. step k t ! j = (if j < Suc k * 4 then G j else res0 ! j))"
    using inv by metis
qed

section \<open>Dithering writes black or white and keeps alpha\<close>

lemma toUint8Clamp_0 [simp]: "toUint8Clamp 0 = 0"
  by (simp add: toUint8Clamp_def)

lemma toUint8Clamp_255 [simp]: "toUint8Clamp 255 = 255"
  by (simp add: toUint8Clamp_def)

lemma writePixel_done:
  assumes "doneUpTo d k res" and "k * 4 + 3 < length d" and "v = 0 \<or> v = 255"
  shows "doneUpTo d (Suc k) ((setPixel res (k * 4) v)[k * 4 + 3 := d ! (k * 4 + 3)])"
  unfolding doneUpTo_def
proof (intro conjI allI impI)
  show "length ((setPixel res (k * 4) v)[k * 4 + 3 := d ! (k * 4 + 3)]) = length d"
    using assms(1) by (simp add: doneUpTo_def setPixel_def)
next
  fix i assume "i < Suc k"
  then consider "i < k" | "i = k" by linarith
  then show "pixelDone d ((setPixel res (k * 4) v)[k * 4 + 3 := d ! (k * 4 + 3)]) i"
  proof cases
    case 1
    then have "pixelDone d res i" using assms(1) by (simp add: doneUpTo_def)
    with 1 show ?thesis by (simp add: pixelDone_def setPixel_def)
  next
    case 2
    have "length res = length d" using assms(1) by (simp add: doneUpTo_def)
    with assms(2,3) 2 show ?thesis
      by (auto simp add: pixelDone_def setPixel_def)
  qed
qed

lemma diffusePixel_done:
  assumes "doneUpTo d (y * w + x) (snd st)" and "(y * w + x) * 4 + 3 < length d"
  shows "doneUpTo d (Suc (y * w + x)) (snd (diffusePixel distribute w h d x y st))"
  using writePixel_done [OF assms, of "if fst st ! (y * w + x) < 128 then 0 else 255"]
  by (simp add: diffusePixel_def Let_def)

lemma pixel_index_bound:
  assumes "x < w" and "y < h"
  shows "(y * w + x) * 4 + 3 < w * h * (4::nat)"
proof -
  have "y * w + x < Suc y * w" using assms(1) by simp
  also have "\<dots> \<le> h * w" using assms(2) by (intro mult_le_mono1) simp
  finally show ?thesis by (simp add: mult.commute)
qed

lemma diffuse_row_done:
  assumes "doneUpTo d (y * w) (snd st)" and "length d = w * h * 4" and "y < h"
  shows "doneUpTo d (Suc y * w) (snd (fold (\<lambda>x. diffusePixel distribute w h d x y) [0..<w] st))"
proof -
  have "doneUpTo d (y * w + w)
          (snd (fold (\<lambda>x. diffusePixel distribute w h d x y) [0..<w] st))"
  proof (rule fold_upt_invariant [where P = "\<lambda>x t. doneUpTo d (y * w + x) (snd t)"])
    show "doneUpTo d (y * w + 0) (snd st)" using assms(1) by simp
  next
    fix x and t :: "real list \<times> u8 list"
    assume "x < w" and "doneUpTo d (y * w + x) (snd t)"
    then show "doneUpTo d (y * w + Suc x) (snd (diffusePixel distribute w h d x y t))"
      using diffusePixel_done [of d y w x t distribute h] pixel_index_bound [of x w y h] assms(2,3)
      by simp
  qed
  then show ?thesis by (simp add: add.commute)
qed

lemma errorDiffusion_done:
  assumes "wellFormed imageData"
  shows "doneUpTo (data imageData) (width imageData * height imageData)
           (data (errorDiffusion distribute imageData))"
proof -
  define w h d where "w = width imageData" and "h = height imageData" and "d = data imageData"
  have len: "length d = w * h * 4" using assms by (simp add: wellFormed_def w_def h_def d_def)
  have "doneUpTo d (h * w)
          (snd (fold (\<lambda>y. fold (\<lambda>x. diffusePixel distribute w h d x y) [0..<w]) [0..<h] st))"
    if "doneUpTo d 0 (snd st)" for st
  proof (rule fold_upt_invariant [where P = "\<lambda>y t. doneUpTo d (y * w) (snd t)"])
    show "doneUpTo d (0 * w) (snd st)" using that by simp
  next
    fix y and t :: "real list \<times> u8 list"
    assume "y < h" and "doneUpTo d (y * w) (snd t)"
    then show "doneUpTo d (Suc y * w) (snd (fold (\<lambda>x. diffusePixel distribute w h d x y) [0..<w] t))"
      using diffuse_row_done [of d y w t h distribute] len by simp
  qed
  moreover have "doneUpTo d 0 d" by (simp add: doneUpTo_def)
  ultimately show ?thesis
    by (simp add: errorDiffusion_def Let_def w_def h_def d_def mult.commute)
qed

lemma orderedPixel_done:
  assumes "doneUpTo d (y * w + x) res" and "(y * w + x) * 4 + 3 < length d"
  shows "doneUpTo d (Suc (y * w + x)) (orderedPixel bayerMatrix msize w d x y res)"
  using writePixel_done [OF assms,
      of "if getGray d ((y * w + x) * 4) > real (bayerMatrix ! (y mod msize) ! (x mod msize))
          then 255 else 0"]
  by (simp add: orderedPixel_def Let_def)

lemma ordered_row_done:
  assumes "doneUpTo d (y * w) res" and "length d = w * h * 4" and "y < h"
  shows "doneUpTo d (Suc y * w) (fold (\<lambda>x. orderedPixel bayerMatrix msize w d x y) [0..<w] res)"
proof -
  have "doneUpTo d (y * w + w) (fold (\<lambda>x. orderedPixel bayerMatrix msize w d x y) [0..<w] res)"
  proof (rule fold_upt_invariant [where P = "\<lambda>x t. doneUpTo d (y * w + x) t"])
    show "doneUpTo d (y * w + 0) res" using assms(1) by simp
  next
    fix x t assume "x < w" and "doneUpTo d (y * w + x) t"
    then show "doneUpTo d (y * w + Suc x) (orderedPixel bayerMatrix msize w d x y t)"
      using orderedPixel_done [of d y w x t bayerMatrix msize] pixel_index_bound [of x w y h]
        assms(2,3)
      by simp
  qed
  then show ?thesis by (simp add: add.commute)
qed

lemma orderedDither_done:
  assumes "wellFormed imageData"
  shows "doneUpTo (data imageData) (width imageData * height imageData)
           (data (orderedDither bayerMatrix msize imageData))"
proof -
  define w h d where "w = width imageData" and "h = height imageData" and "d = data imageData"
  have len: "length d = w * h * 4" using assms by (simp add: wellFormed_def w_def h_def d_def)
  have "doneUpTo d (h * w)
          (fold (\<lambda>y. fold (\<lambda>x. orderedPixel bayerMatrix msize w d x y) [0..<w]) [0..<h] d)"
  proof (rule fold_upt_invariant [where P = "\<lambda>y t. doneUpTo d (y * w) t"])
    show "doneUpTo d (0 * w) d" by (simp add: doneUpTo_def)
  next
    fix y t assume "y < h" and "doneUpTo d (y * w) t"
    then show "doneUpTo d (Suc y * w) (fold (\<lambda>x. orderedPixel bayerMatrix msize w d x y) [0..<w] t)"
      using ordered_row_done [of d y w t h bayerMatrix msize] len by simp
  qed
  then show ?thesis
    by (simp add: orderedDither_def Let_def w_def h_def d_def mult.commute)
qed

lemma ditheringAlgorithms_done:
  assumes "wellFormed imageData"
  shows "doneUpTo (data imageData) (width imageData * height imageData)
           (data (ditheringAlgorithms alg imageData))"
  using errorDiffusion_done [OF assms] orderedDither_done [OF assms]
  by (cases alg)
     (simp_all add: floydSteinberg_def jarvisJudiceNinke_def stucki_def atkinson_def sierra_def
        sierraTwoRow_def burkes_def bayerOrdered_def bayerOrdered4x4_def)

text \<open>
  Claim C2. For each of the nine dithering algorithms and every well-formed buffer,
  every pixel of the output has its red byte 0 or 255, its green and blue bytes
  equal to the red one, and the alpha byte of the input at that pixel; the output
  has the input's length.
\<close>

theorem dithering_binary_alpha:
  assumes "wellFormed imageData" and "i < width imageData * height imageData"
  shows "(let out = data (ditheringAlgorithms alg imageData) in
            (out ! (i * 4) = 0 \<or> out ! (i * 4) = 255)
            \<and> out ! (i * 4 + 1) = out ! (i * 4)
            \<and> out ! (i * 4 + 2) = out ! (i * 4)
            \<and> out ! (i * 4 + 3) = data imageData ! (i * 4 + 3)
            \<and> length out = length (data imageData))"
  using ditheringAlgorithms_done [OF assms(1), of alg] assms(2)
  by (simp add: doneUpTo_def pixelDone_def Let_def)

theorem dithering_binary_alpha_witness:
  "wellFormed grayPair \<and> 1 < width grayPair * height grayPair
   \<and> data (ditheringAlgorithms FloydSteinberg grayPair) ! (1 * 4 + 3) = 128
   \<and> (data (ditheringAlgorithms FloydSteinberg grayPair) ! (1 * 4) = 0
       \<or> data (ditheringAlgorithms FloydSteinberg grayPair) ! (1 * 4) = 255)"
proof -
  have wf: "wellFormed grayPair" by (simp add: wellFormed_def grayPair_def)
  have lt: "1 < width grayPair * height grayPair" by (simp add: grayPair_def)
  show ?thesis
    using wf lt dithering_binary_alpha [OF wf lt, of FloydSteinberg]
    by (simp add: Let_def grayPair_def)
qed

section \<open>Ordered dithering, byte by byte\<close>

lemma pixel_byte_cases:
  assumes "k * 4 \<le> j" and "j < k * 4 + (4::nat)"
  shows "j = k * 4 \<or> j = k * 4 + 1 \<or> j = k * 4 + 2 \<or> j = k * 4 + 3"
  using assms by linarith

lemma orderedPixel_nth:
  assumes "length res = n" and "j < n"
  shows "length (orderedPixel bayerMatrix msize w d (k mod w) (k div w) res) = n
     \<and> orderedPixel bayerMatrix msize w d (k mod w) (k div w) res ! j
        = (if k * 4 \<le> j \<and> j < k * 4 + 4 then
             (if j = k * 4 + 3 then d ! j
              else toUint8Clamp
                (if getGray d (k * 4) > real (bayerMatrix ! ((k div w) mod msize) ! ((k mod w) mod msize))
                 then 255 else 0))
           else res ! j)"
proof -
  have idx: "(k div w * w + k mod w) * 4 = k * 4" by simp
  show ?thesis
  proof (cases "k * 4 \<le> j \<and> j < k * 4 + 4")
    case True
    then have "j = k * 4 \<or> j = k * 4 + 1 \<or> j = k * 4 + 2 \<or> j = k * 4 + 3"
      using pixel_byte_cases by blast
    then show ?thesis
      using assms(1,2) unfolding orderedPixel_def Let_def setPixel_def idx
      by (elim disjE) simp_all
  next
    case False
    then show ?thesis
      using assms(1,2) unfolding orderedPixel_def Let_def setPixel_def idx
      by auto
  qed
qed

lemma orderedDither_nth:
  assumes "wellFormed imageData" and "j < length (data imageData)"
  shows "data (orderedDither bayerMatrix msize imageData) ! j
           = orderedValue bayerMatrix msize (width imageData) (data imageData) j"
proof -
  define w h d where "w = width imageData" and "h = height imageData" and "d = data imageData"
  define G where "G = orderedValue bayerMatrix msize w d"
  have len: "length d = h * w * 4"
    using assms(1) by (simp add: wellFormed_def w_def h_def d_def mult.commute)
  have "length (fold (\<lambda>k. orderedPixel bayerMatrix msize w d (k mod w) (k div w)) [0..<h * w] d)
          = h * w * 4
      \<and> (\<forall>j<h * w * 4. fold (\<lambda>k. orderedPixel bayerMatrix msize w d (k mod w) (k div w))
                           [0..<h * w] d ! j
            = (if j < h * w * 4 then G j else d ! j))"
  proof (rule pixel_fold [OF len])
    fix k and res :: "u8 list"
    assume "k < h * w" and lr: "length res = h * w * 4"
    have "G j = (if j = k * 4 + 3 then d ! j
                 else toUint8Clamp
                   (if getGray d (k * 4)
                        > real (bayerMatrix ! ((k div w) mod msize) ! ((k mod w) mod msize))
                    then 255 else 0))"
      if "k * 4 \<le> j \<and> j < k * 4 + 4" for j
    proof -
      have "j div 4 = k" using that by linarith
      moreover have "j mod 4 = 3 \<longleftrightarrow> j = k * 4 + 3" using that by presburger
      ultimately show ?thesis by (simp add: G_def orderedValue_def Let_def)
    qed
    note G = this
    show "length (orderedPixel bayerMatrix msize w d (k mod w) (k div w) res) = h * w * 4
      \<and> (\<forall>j<h * w * 4. orderedPixel bayerMatrix msize w d (k mod w) (k div w) res ! j
             = (if k * 4 \<le> j \<and> j < k * 4 + 4 then G j else res ! j))"
    proof (intro conjI allI impI)
      show "length (orderedPixel bayerMatrix msize w d (k mod w) (k div w) res) = h * w * 4"
        by (simp add: orderedPixel_def Let_def setPixel_def lr)
    next
      fix j assume "j < h * w * 4"
      then show "orderedPixel bayerMatrix msize w d (k mod w) (k div w) res ! j
             = (if k * 4 \<le> j \<and> j < k * 4 + 4 then G j else res ! j)"
        using orderedPixel_nth [OF lr, of j bayerMatrix msize w d k] G [of j] by simp
    qed
  qed
  then show ?thesis
    using assms(2) len
    by (simp add: orderedDither_def Let_def nested_fold_flat G_def w_def h_def d_def)
qed

section \<open>Bounds on the gray value\<close>

lemma num_nonneg: "0 \<le> num c"
  by (simp add: num_def del: of_nat_unat)

lemma num_le_255: "num c \<le> 255"
proof -
  have "unat c < 2 ^ LENGTH(8)" by (rule unsigned_less)
  then have "unat c \<le> 255" by simp
  then have "real (unat c) \<le> real 255" by (rule of_nat_mono)
  then show ?thesis by (simp add: num_def del: of_nat_unat)
qed

lemma fl64_nonneg: "0 \<le> x \<Longrightarrow> 0 \<le> fl64 x"
  unfolding fl64_def by (rule roundTo_nonneg)

lemma fl64_one: "fl64 1 = 1"
  using fl64_of_int [of 1] by simp

lemma luminance_mono:
  assumes "r \<le> r'" and "g \<le> g'" and "b \<le> b'"
  shows "fl64 (fl64 (fl64 (fl64 0.299 * r) + fl64 (fl64 0.587 * g)) + fl64 (fl64 0.114 * b))
       \<le> fl64 (fl64 (fl64 (fl64 0.299 * r') + fl64 (fl64 0.587 * g')) + fl64 (fl64 0.114 * b'))"
  by (intro fl64_mono add_mono mult_left_mono assms fl64_nonneg) simp_all

lemma luminance_top:
  "fl64 (fl64 (fl64 (fl64 0.299 * (255 + 1 / 2 ^ 45)) + fl64 (fl64 0.587 * (255 + 1 / 2 ^ 45)))
         + fl64 (fl64 0.114 * (255 + 1 / 2 ^ 45))) = 255"
  by (simp add: fl_eval)

lemma luminance_le_255:
  assumes "r \<le> 255 + 1 / 2 ^ 45" and "g \<le> 255 + 1 / 2 ^ 45" and "b \<le> 255 + 1 / 2 ^ 45"
  shows "fl64 (fl64 (fl64 (fl64 0.299 * r) + fl64 (fl64 0.587 * g)) + fl64 (fl64 0.114 * b)) \<le> 255"
  using luminance_mono [OF assms] by (simp only: luminance_top)

lemma composite_top: "fl64 (255 + 255 / 2 ^ 54 + 1 / 2 ^ 45) = 255 + 1 / 2 ^ 45"
  by (simp add: fl_eval)

lemma abs_diff_upper: "\<bar>p - q\<bar> \<le> e \<Longrightarrow> p \<le> q + (e::real)"
  by linarith

lemma abs_diff_lower: "\<bar>p - q\<bar> \<le> e \<Longrightarrow> q - (e::real) \<le> p"
  by linarith

lemma powi_54: "(2::real) powi (0 - 54) = 1 / 2 ^ 54"
  by (simp add: power_int_minus field_simps)

lemma powi_46: "(2::real) powi (8 - 54) = 1 / 2 ^ 46"
  by (simp add: power_int_minus field_simps)

lemma channel_composite_le:
  assumes "1 \<le> num a" and "num a \<le> 255"
  shows "fl64 (fl64 (num c * fl64 (num a / 255)) + fl64 (255 * fl64 (1 - fl64 (num a / 255))))
       \<le> 255 + 1 / 2 ^ 45"
proof -
  define alpha where "alpha = fl64 (num a / 255)"
  define beta where "beta = fl64 (1 - alpha)"
  have "fl64 (1 / 256) \<le> alpha"
    unfolding alpha_def using assms(1) by (intro fl64_mono) simp
  moreover have "fl64 (1 / 256) = 1 / 256"
    unfolding fl64_def using roundTo_fixed [of "1 / 256" 1 "- 8" 53 "- 1022"]
    by (simp add: power_int_minus)
  ultimately have lo: "1 / 256 \<le> alpha" by simp
  have "alpha \<le> fl64 1" unfolding alpha_def using assms(2) by (intro fl64_mono) simp
  then have hi: "alpha \<le> 1" by (simp add: fl64_one)
  have "\<bar>1 - alpha\<bar> < 2 powi 0" using lo hi by simp
  then have "\<bar>fl64 (1 - alpha) - (1 - alpha)\<bar> \<le> 2 powi (0 - 54)" by (rule fl64_error) simp
  then have b: "beta \<le> 1 - alpha + 1 / 2 ^ 54"
    unfolding beta_def powi_54 by (rule abs_diff_upper)
  have b0: "0 \<le> beta" unfolding beta_def using hi by (intro fl64_nonneg) simp
  have "beta \<le> fl64 1" unfolding beta_def using lo by (intro fl64_mono) simp
  then have b1: "beta \<le> 1" by (simp add: fl64_one)
  have "\<bar>255 * beta\<bar> < 2 powi 8" using b0 b1 by simp
  then have "\<bar>fl64 (255 * beta) - 255 * beta\<bar> \<le> 2 powi (8 - 54)" by (rule fl64_error) simp
  then have t: "fl64 (255 * beta) \<le> 255 * beta + 1 / 2 ^ 46"
    unfolding powi_46 by (rule abs_diff_upper)
  have c: "0 \<le> num c" "num c \<le> 255" by (rule num_nonneg, rule num_le_255)
  have ca: "num c * alpha \<le> 255 * alpha" using c(2) lo by (intro mult_right_mono) simp_all
  have "0 \<le> num c * alpha" using c(1) lo by simp
  moreover have "255 * alpha \<le> 255" using hi by simp
  ultimately have "\<bar>num c * alpha\<bar> < 2 powi 8" using ca by simp
  then have "\<bar>fl64 (num c * alpha) - num c * alpha\<bar> \<le> 2 powi (8 - 54)"
    by (rule fl64_error) simp
  then have u: "fl64 (num c * alpha) \<le> num c * alpha + 1 / 2 ^ 46"
    unfolding powi_46 by (rule abs_diff_upper)
  have "fl64 (num c * alpha) + fl64 (255 * beta) \<le> 255 + 255 / 2 ^ 54 + 1 / 2 ^ 45"
    using t u b ca by simp
  from fl64_mono [OF this] show ?thesis
    unfolding alpha_def [symmetric] beta_def [symmetric] by (simp only: composite_top)
qed

lemma num_pos: "a \<noteq> 0 \<Longrightarrow> 1 \<le> num a"
proof -
  assume "a \<noteq> 0"
  then have "unat a \<noteq> 0" by (simp add: unat_eq_0)
  then have "1 \<le> unat a" by simp
  then have "real 1 \<le> real (unat a)" by (rule of_nat_mono)
  then show ?thesis by (simp add: num_def del: of_nat_unat)
qed

lemma getGray_le_255: "getGray d idx \<le> 255"
proof (cases "d ! (idx + 3) = 0")
  case True
  then show ?thesis by (simp add: getGray_def)
next
  case nz: False
  note a = num_pos [OF nz] num_le_255 [of "d ! (idx + 3)"]
  show ?thesis
  proof (cases "d ! (idx + 3) < 255")
    case True
    show ?thesis
      unfolding getGray_def Let_def
      by (simp only: nz True if_True if_False) (intro luminance_le_255 channel_composite_le a)
  next
    case False
    have "num c \<le> 255 + 1 / 2 ^ 45" for c using num_le_255 [of c] by simp
    then show ?thesis
      unfolding getGray_def Let_def
      by (simp only: nz False if_True if_False) (intro luminance_le_255)
  qed
qed

section \<open>The 4x4 Bayer matrix and its entry 255\<close>

lemma bayer4_corner:
  assumes "wellFormed imageData" and "x < width imageData" and "y < height imageData"
    and "y mod 4 = 3" and "x mod 4 = 0" and "c < 3"
    and "getGray (data imageData) ((y * width imageData + x) * 4) \<le> 255"
  shows "data (bayerOrdered4x4 imageData) ! ((y * width imageData + x) * 4 + c) = 0"
proof -
  define w where "w = width imageData"
  define k where "k = y * w + x"
  have xw: "x < w" using assms(2) by (simp add: w_def)
  have "(k * 4 + c) < length (data imageData)"
    using pixel_index_bound [OF xw assms(3)] assms(1,6)
    by (simp add: wellFormed_def k_def w_def)
  then have "data (bayerOrdered4x4 imageData) ! (k * 4 + c)
      = orderedValue bayerMatrix4 4 w (data imageData) (k * 4 + c)"
    unfolding bayerOrdered4x4_def w_def by (rule orderedDither_nth [OF assms(1)])
  moreover have "(k * 4 + c) div 4 = k" "(k * 4 + c) mod 4 \<noteq> 3" using assms(6) by auto
  moreover have "k div w = y" "k mod w = x" using xw by (simp_all add: k_def)
  moreover have "bayerMatrix4 ! (y mod 4) ! (x mod 4) = 255"
    by (simp add: assms(4,5) bayerMatrix4_def)
  ultimately show ?thesis
    using assms(7) by (simp add: orderedValue_def Let_def k_def w_def)
qed

text \<open>
  Claim C10, as amended. The 4x4 matrix holds 255 at row 3, column 0, and the
  comparison is strict: in a well-formed buffer every pixel with \<open>y mod 4 = 3\<close> and
  \<open>x mod 4 = 0\<close> whose gray does not exceed 255 is written black. Hence a well-formed
  buffer at least one pixel wide and four pixels high never yields an all-white
  output: it has a pixel whose red byte is not 255.
\<close>

theorem bayer4_entry_255_black:
  assumes "wellFormed imageData"
  shows "(\<forall>x y. x < width imageData \<and> y < height imageData \<and> y mod 4 = 3 \<and> x mod 4 = 0
            \<and> getGray (data imageData) ((y * width imageData + x) * 4) \<le> 255
          \<longrightarrow> (\<forall>c<3. data (bayerOrdered4x4 imageData) ! ((y * width imageData + x) * 4 + c) = 0))
     \<and> (1 \<le> width imageData \<and> 4 \<le> height imageData
          \<longrightarrow> (\<exists>i<width imageData * height imageData.
                 data (bayerOrdered4x4 imageData) ! (i * 4) \<noteq> 255))"
proof (intro conjI allI impI)
  fix x y and c :: nat
  assume "x < width imageData \<and> y < height imageData \<and> y mod 4 = 3 \<and> x mod 4 = 0
      \<and> getGray (data imageData) ((y * width imageData + x) * 4) \<le> 255" and "c < 3"
  then show "data (bayerOrdered4x4 imageData) ! ((y * width imageData + x) * 4 + c) = 0"
    using bayer4_corner [OF assms, of x y c] by simp
next
  assume dims: "1 \<le> width imageData \<and> 4 \<le> height imageData"
  then have "data (bayerOrdered4x4 imageData) ! ((3 * width imageData + 0) * 4 + 0) = 0"
    using getGray_le_255 by (intro bayer4_corner [OF assms]) simp_all
  moreover have "3 * width imageData + 0 < width imageData * height imageData"
  proof -
    have "3 * width imageData + 0 < 4 * width imageData" using dims by simp
    also have "\<dots> \<le> height imageData * width imageData" using dims by (intro mult_le_mono1) simp
    finally show ?thesis by (simp add: mult.commute)
  qed
  ultimately show "\<exists>i<width imageData * height imageData.
      data (bayerOrdered4x4 imageData) ! (i * 4) \<noteq> 255"
    by (intro exI [of _ "3 * width imageData + 0"]) simp
qed

theorem bayer4_entry_255_black_witness:
  "wellFormed whiteStrip \<and> 0 < width whiteStrip \<and> 3 < height whiteStrip
   \<and> getGray (data whiteStrip) ((3 * width whiteStrip + 0) * 4) \<le> 255
   \<and> data (bayerOrdered4x4 whiteStrip) ! 12 = 0"
proof -
  have wf: "wellFormed whiteStrip" by (simp add: wellFormed_def whiteStrip_def)
  have g: "getGray (data whiteStrip) ((3 * width whiteStrip + 0) * 4) \<le> 255"
    by (rule getGray_le_255)
  have "data (bayerOrdered4x4 whiteStrip) ! ((3 * width whiteStrip + 0) * 4 + 0) = 0"
    using bayer4_entry_255_black [OF wf, THEN conjunct1, rule_format, of 0 3 0] g
    by (simp add: whiteStrip_def)
  then show ?thesis using wf g by (simp add: whiteStrip_def)
qed

text \<open>
  The claim's last sentence, that no input yields an all-white output, fails for
  buffers less than four pixels high: a single opaque white pixel stays white.
\<close>

theorem bayer4_all_white_counterexample:
  "wellFormed whiteDot \<and> data (bayerOrdered4x4 whiteDot) = [255, 255, 255, 255]"
  by (simp add: wellFormed_def whiteDot_def bayerOrdered4x4_def orderedDither_def orderedPixel_def
      bayerMatrix4_def getGray_def setPixel_def num_def fl_eval)

section \<open>The alpha-aware gray formula\<close>

text \<open>
  Claim C4. \<open>getGrayOnWhite\<close> is 255 for a pixel with alpha 0 whatever its colour;
  for alpha 255 it is the weighted sum \<open>0.299 R + 0.587 G + 0.114 B\<close>, which is
  76.245 for the pixel (255, 0, 0, 255); for an alpha strictly between, every
  channel is first composited on white, \<open>channel * alpha / 255 + 255 * (1 - alpha / 255)\<close>,
  and the composites are weighted.
\<close>

theorem getGrayOnWhite_formula:
  "(d ! (idx + 3) = 0 \<longrightarrow> getGrayOnWhite d idx = 255)
   \<and> (d ! (idx + 3) = 255 \<longrightarrow>
        getGrayOnWhite d idx
          = 0.299 * num (d ! idx) + 0.587 * num (d ! (idx + 1)) + 0.114 * num (d ! (idx + 2)))
   \<and> (0 < d ! (idx + 3) \<and> d ! (idx + 3) < 255 \<longrightarrow>
        getGrayOnWhite d idx
          = 0.299 * (num (d ! idx) * num (d ! (idx + 3)) / 255 + 255 * (1 - num (d ! (idx + 3)) / 255))
          + 0.587 * (num (d ! (idx + 1)) * num (d ! (idx + 3)) / 255
                     + 255 * (1 - num (d ! (idx + 3)) / 255))
          + 0.114 * (num (d ! (idx + 2)) * num (d ! (idx + 3)) / 255
                     + 255 * (1 - num (d ! (idx + 3)) / 255)))
   \<and> getGrayOnWhite [255, 0, 0, 255] 0 = 76.245"
proof (intro conjI impI)
  assume "d ! (idx + 3) = 0"
  then show "getGrayOnWhite d idx = 255" by (simp add: getGrayOnWhite_def)
next
  assume "d ! (idx + 3) = 255"
  then show "getGrayOnWhite d idx
      = 0.299 * num (d ! idx) + 0.587 * num (d ! (idx + 1)) + 0.114 * num (d ! (idx + 2))"
    by (simp add: getGrayOnWhite_def)
next
  assume a: "0 < d ! (idx + 3) \<and> d ! (idx + 3) < 255"
  then have "d ! (idx + 3) \<noteq> 0" by auto
  with a show "getGrayOnWhite d idx
      = 0.299 * (num (d ! idx) * num (d ! (idx + 3)) / 255 + 255 * (1 - num (d ! (idx + 3)) / 255))
      + 0.587 * (num (d ! (idx + 1)) * num (d ! (idx + 3)) / 255
                 + 255 * (1 - num (d ! (idx + 3)) / 255))
      + 0.114 * (num (d ! (idx + 2)) * num (d ! (idx + 3)) / 255
                 + 255 * (1 - num (d ! (idx + 3)) / 255))"
    by (simp add: getGrayOnWhite_def Let_def)
next
  show "getGrayOnWhite [255, 0, 0, 255] 0 = 76.245"
    by (simp add: getGrayOnWhite_def num_def)
qed

theorem getGrayOnWhite_formula_witness:
  "getGrayOnWhite [10, 20, 30, 0] 0 = 255
   \<and> getGrayOnWhite [255, 0, 0, 255] 0 = 76.245
   \<and> getGrayOnWhite [0, 0, 0, 51] 0 = 204"
proof -
  have "getGrayOnWhite [10, 20, 30, 0] 0 = 255"
    using getGrayOnWhite_formula [of "[10, 20, 30, 0]" 0] by simp
  moreover have "getGrayOnWhite [255, 0, 0, 255] 0 = 76.245"
    using getGrayOnWhite_formula [of "[255, 0, 0, 255]" 0] by (simp add: num_def)
  moreover have "getGrayOnWhite [0, 0, 0, 51] 0 = 204"
    using getGrayOnWhite_formula [of "[0, 0, 0, 51]" 0] by (simp add: num_def)
  ultimately show ?thesis by simp
qed

section \<open>The gray value in binary64 and over the reals\<close>

text \<open>
  Every operation of \<open>getGrayOnWhite64\<close> rounds a number below 256 in absolute
  value, by at most \<open>2\<close> to the power \<open>-46\<close>; the bounds add up along the formula.
\<close>

lemma fl64_near_256: "\<bar>x\<bar> < 256 \<Longrightarrow> \<bar>fl64 x - x\<bar> \<le> 1 / 2 ^ 46"
  using fl64_error [of x 8] by (simp add: powi_46)

lemma fl64_near_1: "\<bar>x\<bar> < 1 \<Longrightarrow> \<bar>fl64 x - x\<bar> \<le> 1 / 2 ^ 54"
  using fl64_error [of x 0] by (simp add: powi_54)

lemma near_trans:
  fixes a b c :: real
  assumes "\<bar>a - b\<bar> \<le> e1" and "\<bar>b - c\<bar> \<le> e2" and "e1 + e2 \<le> e"
  shows "\<bar>a - c\<bar> \<le> e"
  using assms by linarith

lemma product_near:
  fixes c x :: real
  assumes "\<bar>c' - c\<bar> \<le> ec" and "\<bar>x' - x\<bar> \<le> ex" and "\<bar>x'\<bar> \<le> X" and "\<bar>c\<bar> \<le> C"
  shows "\<bar>c' * x' - c * x\<bar> \<le> ec * X + C * ex"
proof -
  have "c' * x' - c * x = (c' - c) * x' + c * (x' - x)" by (simp add: algebra_simps)
  then have "\<bar>c' * x' - c * x\<bar> \<le> \<bar>c' - c\<bar> * \<bar>x'\<bar> + \<bar>c\<bar> * \<bar>x' - x\<bar>"
    by (simp add: abs_mult [symmetric] abs_triangle_ineq)
  also have "\<dots> \<le> ec * X + C * ex"
    using assms by (intro add_mono mult_mono) (auto intro: order_trans [OF abs_ge_zero])
  finally show ?thesis .
qed

lemma weight_near:
  assumes "0 \<le> c" and "c < 1" and "\<bar>x' - x\<bar> \<le> ex" and "\<bar>x'\<bar> \<le> 255 + 1 / 2 ^ 40"
    and "ex \<le> 1 / 2 ^ 43"
  shows "\<bar>fl64 (fl64 c * x') - c * x\<bar> \<le> 1 / 2 ^ 45 + c * ex"
proof -
  have c: "\<bar>fl64 c - c\<bar> \<le> 1 / 2 ^ 54" using assms(1,2) by (intro fl64_near_1) simp
  have "fl64 0 \<le> fl64 c" "fl64 c \<le> fl64 1" using assms(1,2) by (intro fl64_mono; simp)+
  then have c01: "0 \<le> fl64 c" "fl64 c \<le> 1" using fl64_of_int [of 0] fl64_one by simp_all
  have "\<bar>fl64 c * x' - c * x\<bar> \<le> 1 / 2 ^ 54 * (255 + 1 / 2 ^ 40) + c * ex"
    using c assms(3,4) assms(1) by (intro product_near) simp_all
  then have near: "\<bar>fl64 c * x' - c * x\<bar> \<le> 1 / 2 ^ 46 + c * ex" by simp
  have "\<bar>fl64 c * x'\<bar> \<le> 1 * (255 + 1 / 2 ^ 40)"
    unfolding abs_mult using c01 assms(4) by (intro mult_mono) simp_all
  then have "\<bar>fl64 c * x'\<bar> < 256" by simp
  from fl64_near_256 [OF this] near show ?thesis by (rule near_trans) simp
qed


lemma luminance_near:
  assumes r: "\<bar>r' - r\<bar> \<le> ex" "\<bar>r'\<bar> \<le> 255 + 1 / 2 ^ 40" "0 \<le> r" "r \<le> 255"
    and g: "\<bar>g' - g\<bar> \<le> ex" "\<bar>g'\<bar> \<le> 255 + 1 / 2 ^ 40" "0 \<le> g" "g \<le> 255"
    and b: "\<bar>b' - b\<bar> \<le> ex" "\<bar>b'\<bar> \<le> 255 + 1 / 2 ^ 40" "0 \<le> b" "b \<le> 255"
    and ex: "ex \<le> 1 / 2 ^ 43"
  shows "\<bar>fl64 (fl64 (fl64 (fl64 0.299 * r') + fl64 (fl64 0.587 * g')) + fl64 (fl64 0.114 * b'))
          - (0.299 * r + 0.587 * g + 0.114 * b)\<bar> \<le> 1 / 2 ^ 43 + ex"
proof -
  define p1 p2 p3 where "p1 = fl64 (fl64 0.299 * r')" and "p2 = fl64 (fl64 0.587 * g')"
    and "p3 = fl64 (fl64 0.114 * b')"
  define s1 where "s1 = fl64 (p1 + p2)"
  define u :: real where "u = 1 / 2 ^ 46"
  have u: "0 < u" "u \<le> 1 / 1000" by (simp_all add: u_def)
  have ex0: "0 \<le> ex" using r(1) by linarith
  have ex8: "ex \<le> 8 * u" using ex by (simp add: u_def)
  have "\<bar>p1 - 0.299 * r\<bar> \<le> 1 / 2 ^ 45 + 0.299 * ex"
    unfolding p1_def using r(1,2) ex by (intro weight_near) simp_all
  then have n1: "\<bar>p1 - 299 / 1000 * r\<bar> \<le> 2 * u + 299 / 1000 * ex" by (simp add: u_def)
  have "\<bar>p2 - 0.587 * g\<bar> \<le> 1 / 2 ^ 45 + 0.587 * ex"
    unfolding p2_def using g(1,2) ex by (intro weight_near) simp_all
  then have n2: "\<bar>p2 - 587 / 1000 * g\<bar> \<le> 2 * u + 587 / 1000 * ex" by (simp add: u_def)
  have "\<bar>p3 - 0.114 * b\<bar> \<le> 1 / 2 ^ 45 + 0.114 * ex"
    unfolding p3_def using b(1,2) ex by (intro weight_near) simp_all
  then have n3: "\<bar>p3 - 114 / 1000 * b\<bar> \<le> 2 * u + 114 / 1000 * ex" by (simp add: u_def)
  have "\<bar>p1 + p2\<bar> < 256" using n1 n2 r(3,4) g(3,4) ex8 ex0 u by linarith
  then have "\<bar>s1 - (p1 + p2)\<bar> \<le> 1 / 2 ^ 46" unfolding s1_def by (rule fl64_near_256)
  then have m1: "\<bar>s1 - (p1 + p2)\<bar> \<le> u" by (simp add: u_def)
  have "\<bar>s1 + p3\<bar> < 256" using m1 n1 n2 n3 r(3,4) g(3,4) b(3,4) ex8 ex0 u by linarith
  then have "\<bar>fl64 (s1 + p3) - (s1 + p3)\<bar> \<le> 1 / 2 ^ 46" by (rule fl64_near_256)
  then have m2: "\<bar>fl64 (s1 + p3) - (s1 + p3)\<bar> \<le> u" by (simp add: u_def)
  have "\<bar>fl64 (s1 + p3) - (299 / 1000 * r + 587 / 1000 * g + 114 / 1000 * b)\<bar> \<le> 8 * u + ex"
    using m1 m2 n1 n2 n3 ex0 by linarith
  then show ?thesis by (simp add: s1_def p1_def p2_def p3_def u_def)
qed


lemma abs_scale: "\<bar>255 * x - 255 * y\<bar> = 255 * \<bar>x - (y::real)\<bar>"
proof -
  have "255 * x - 255 * y = 255 * (x - y)" by (simp add: algebra_simps)
  then show ?thesis by (simp only: abs_mult)
qed

lemma composite_near:
  fixes a c :: u8
  assumes a: "1 \<le> num a" "num a \<le> 254"
  defines "ch' \<equiv> fl64 (fl64 (num c * fl64 (num a / 255)) + fl64 (255 * fl64 (1 - fl64 (num a / 255))))"
    and "ch \<equiv> num c * (num a / 255) + 255 * (1 - num a / 255)"
  shows "\<bar>ch' - ch\<bar> \<le> 1 / 2 ^ 43" and "\<bar>ch'\<bar> \<le> 255 + 1 / 2 ^ 40" and "0 \<le> ch" and "ch \<le> 255"
proof -
  define alpha alpha' where "alpha = num a / 255" and "alpha' = fl64 (num a / 255)"
  define beta' where "beta' = fl64 (1 - alpha')"
  define X X' where "X = num c * alpha" and "X' = num c * alpha'"
  define t' u' where "t' = fl64 (255 * beta')" and "u' = fl64 X'"
  define u :: real where "u = 1 / 2 ^ 46"
  have u: "0 < u" "u \<le> 1 / 1000" by (simp_all add: u_def)
  have c: "0 \<le> num c" "num c \<le> 255" by (rule num_nonneg, rule num_le_255)
  have al: "1 / 255 \<le> alpha" "alpha \<le> 254 / 255" using a by (simp_all add: alpha_def)
  have "fl64 (1 / 256) \<le> alpha'" unfolding alpha'_def using a(1) by (intro fl64_mono) simp
  moreover have "fl64 (1 / 256) = 1 / 256"
    unfolding fl64_def using roundTo_fixed [of "1 / 256" 1 "- 8" 53 "- 1022"]
    by (simp add: power_int_minus)
  ultimately have lo: "1 / 256 \<le> alpha'" by simp
  have "alpha' \<le> fl64 1" unfolding alpha'_def using a(2) by (intro fl64_mono) simp
  then have hi: "alpha' \<le> 1" by (simp add: fl64_one)
  have "\<bar>alpha' - alpha\<bar> \<le> 1 / 2 ^ 54"
    unfolding alpha'_def alpha_def using a by (intro fl64_near_1) simp
  then have na: "\<bar>alpha' - alpha\<bar> \<le> u / 256" by (simp add: u_def)
  have "\<bar>beta' - (1 - alpha')\<bar> \<le> 1 / 2 ^ 54"
    unfolding beta'_def using lo hi by (intro fl64_near_1) simp
  then have nb: "\<bar>beta' - (1 - alpha')\<bar> \<le> u / 256" by (simp add: u_def)
  have "\<bar>255 * beta'\<bar> < 256" using nb lo hi u by linarith
  then have "\<bar>t' - 255 * beta'\<bar> \<le> 1 / 2 ^ 46" unfolding t'_def by (rule fl64_near_256)
  then have nt: "\<bar>t' - 255 * beta'\<bar> \<le> u" by (simp add: u_def)
  have X0: "0 \<le> X" "X \<le> 255 * alpha"
    unfolding X_def using c al by (simp_all add: mult_right_mono)
  have X'0: "0 \<le> X'" "X' \<le> 255 * alpha'"
    unfolding X'_def using c lo by (simp_all add: mult_right_mono)
  have "\<bar>X' - X\<bar> = num c * \<bar>alpha' - alpha\<bar>"
    unfolding X_def X'_def using c(1) by (simp add: right_diff_distrib [symmetric] abs_mult)
  also have "\<dots> \<le> 255 * (u / 256)" using c na by (intro mult_mono) simp_all
  finally have nX: "\<bar>X' - X\<bar> \<le> u" using u by simp
  have "\<bar>X'\<bar> < 256" using X'0 hi by linarith
  then have "\<bar>u' - X'\<bar> \<le> 1 / 2 ^ 46" unfolding u'_def by (rule fl64_near_256)
  then have nu: "\<bar>u' - X'\<bar> \<le> u" by (simp add: u_def)
  have "\<bar>u' + t'\<bar> < 256" using nu nt nb X'0 lo hi u by linarith
  then have "\<bar>fl64 (u' + t') - (u' + t')\<bar> \<le> 1 / 2 ^ 46" by (rule fl64_near_256)
  then have nc: "\<bar>fl64 (u' + t') - (u' + t')\<bar> \<le> u" by (simp add: u_def)
  have chs: "ch' = fl64 (u' + t')" "ch = X + 255 * (1 - alpha)"
    by (simp_all add: ch'_def ch_def u'_def t'_def X'_def X_def beta'_def alpha'_def alpha_def)
  have s1: "\<bar>u' - X\<bar> \<le> 2 * u" using nu nX by linarith
  have "\<bar>beta' - (1 - alpha)\<bar> \<le> u / 128" using nb na by linarith
  then have "255 * \<bar>beta' - (1 - alpha)\<bar> \<le> 255 * (u / 128)" by (intro mult_left_mono) simp_all
  moreover have "255 * \<bar>beta' - (1 - alpha)\<bar> = \<bar>255 * beta' - 255 * (1 - alpha)\<bar>"
    by (rule abs_scale [symmetric])
  ultimately have "\<bar>255 * beta' - 255 * (1 - alpha)\<bar> \<le> 2 * u" using u by simp
  then have s2: "\<bar>t' - 255 * (1 - alpha)\<bar> \<le> 3 * u" using nt by linarith
  have "\<bar>(u' + t') - (X + 255 * (1 - alpha))\<bar> \<le> 5 * u" using s1 s2 by linarith
  then have near: "\<bar>ch' - ch\<bar> \<le> 8 * u" unfolding chs using nc u by linarith
  then show "\<bar>ch' - ch\<bar> \<le> 1 / 2 ^ 43" by (simp add: u_def)
  have "0 \<le> 255 * (1 - alpha)" using al by simp
  then show ch0: "0 \<le> ch" unfolding chs using X0 by simp
  have "255 * alpha + 255 * (1 - alpha) = 255" by simp
  then show ch1: "ch \<le> 255" unfolding chs using X0 by linarith
  have "\<bar>ch'\<bar> \<le> 255 + 8 * u" using near ch0 ch1 by linarith
  then show "\<bar>ch'\<bar> \<le> 255 + 1 / 2 ^ 40" by (simp add: u_def)
qed

text \<open>
  The two readings of the gray function differ by less than \<open>2\<close> to the power
  \<open>-42\<close>: the binary64 value is the value of the formula up to rounding.
\<close>

lemma getGrayOnWhite64_near:
  "\<bar>getGrayOnWhite64 d idx - getGrayOnWhite d idx\<bar> \<le> 1 / 2 ^ 42"
proof (cases "d ! (idx + 3) = 0")
  case True
  then show ?thesis by (simp add: getGrayOnWhite64_def getGrayOnWhite_def)
next
  case nz: False
  show ?thesis
  proof (cases "d ! (idx + 3) < 255")
    case True
    then have "unat (d ! (idx + 3)) < unat (255 :: u8)" by (simp only: word_less_nat_alt)
    then have "unat (d ! (idx + 3)) \<le> 254" by simp
    then have "real (unat (d ! (idx + 3))) \<le> real 254" by (rule of_nat_mono)
    then have a: "1 \<le> num (d ! (idx + 3))" "num (d ! (idx + 3)) \<le> 254"
      using num_pos [OF nz] by (simp_all add: num_def del: of_nat_unat)
    have "\<bar>getGrayOnWhite64 d idx - getGrayOnWhite d idx\<bar> \<le> 1 / 2 ^ 43 + 1 / 2 ^ 43"
      unfolding getGrayOnWhite64_def getGrayOnWhite_def Let_def
      by (simp only: nz True if_True if_False) (intro luminance_near composite_near a order_refl)
    then show ?thesis by simp
  next
    case False
    have c: "\<bar>num c - num c\<bar> \<le> 0" "\<bar>num c\<bar> \<le> 255 + 1 / 2 ^ 40" for c
      using num_nonneg [of c] num_le_255 [of c] by simp_all
    have "\<bar>getGrayOnWhite64 d idx - getGrayOnWhite d idx\<bar> \<le> 1 / 2 ^ 43 + 0"
      unfolding getGrayOnWhite64_def getGrayOnWhite_def Let_def
      by (simp only: nz False if_True if_False)
         (intro luminance_near c num_nonneg num_le_255, simp)
    then show ?thesis by simp
  qed
qed

section \<open>The adjustments at their neutral parameters\<close>

lemma num_eq_255_iff: "num b = 255 \<longleftrightarrow> b = 255"
proof
  assume "num b = 255"
  then have "real (unat b) = real 255" by (simp add: num_def del: of_nat_unat)
  then have "unat b = 255" by (simp only: of_nat_eq_iff)
  then have "of_nat (unat b) = (of_nat 255 :: u8)" by (simp only:)
  then show "b = 255" by simp
next
  assume "b = 255"
  then show "num b = 255" by (simp add: num_def)
qed

lemma num_eq_0_iff: "num b = 0 \<longleftrightarrow> b = 0"
  by (simp add: num_def unsigned_eq_0_iff del: of_nat_unat)

lemma roundHalfEven_of_nat: "roundHalfEven (real n) = int n"
  by (simp add: roundHalfEven_def Let_def)

lemma toUint8Clamp_num: "toUint8Clamp (num b) = b"
proof -
  consider "num b \<le> 0" | "num b \<ge> 255" | "0 < num b" "num b < 255" by linarith
  then show ?thesis
  proof cases
    case 1
    then have "num b = 0" using num_nonneg [of b] by linarith
    then have "b = 0" by (simp only: num_eq_0_iff)
    with 1 show ?thesis by (simp add: toUint8Clamp_def)
  next
    case 2
    then have "num b = 255" using num_le_255 [of b] by linarith
    then have "b = 255" by (simp only: num_eq_255_iff)
    with 2 show ?thesis by (simp add: toUint8Clamp_def)
  next
    case 3
    have "(of_int (roundHalfEven (real (unat b))) :: u8) = of_int (int (unat b))"
      by (simp only: roundHalfEven_of_nat)
    also have "\<dots> = b" by simp
    finally show ?thesis using 3 by (simp add: toUint8Clamp_def num_def del: of_nat_unat)
  qed
qed

lemma clamp_num: "clamp (num b) 0 255 = num b"
  using num_nonneg [of b] num_le_255 [of b] by (simp add: clamp_def)

lemma fold_fixed:
  assumes "\<And>x. x \<in> set xs \<Longrightarrow> f x s = s"
  shows "fold f xs s = s"
  using assms by (induction xs) simp_all

lemma adjustBrightness_zero: "adjustBrightness imageData 0 = imageData"
proof -
  have "fold (\<lambda>i result.
          result[i := toUint8Clamp (clamp (num (data imageData ! i) + 0) 0 255),
                 i + 1 := toUint8Clamp (clamp (num (data imageData ! (i + 1)) + 0) 0 255),
                 i + 2 := toUint8Clamp (clamp (num (data imageData ! (i + 2)) + 0) 0 255),
                 i + 3 := data imageData ! (i + 3)])
        (pixelStarts (length (data imageData))) (data imageData) = data imageData"
    by (rule fold_fixed) (simp add: clamp_num toUint8Clamp_num)
  then show ?thesis by (simp add: adjustBrightness_def Let_def)
qed

lemma contrast_channel_zero:
  "((v / 255 - 0.5) * ((259 * (0 + 255)) / (255 * (259 - 0))) + 0.5) * 255 = (v::real)"
  by simp

lemma adjustContrast_zero: "adjustContrast imageData 0 = imageData"
proof -
  have "fold (\<lambda>i result.
          result[i := toUint8Clamp (clamp (num (data imageData ! i)) 0 255),
                 i + 1 := toUint8Clamp (clamp (num (data imageData ! (i + 1))) 0 255),
                 i + 2 := toUint8Clamp (clamp (num (data imageData ! (i + 2))) 0 255),
                 i + 3 := data imageData ! (i + 3)])
        (pixelStarts (length (data imageData))) (data imageData) = data imageData"
    by (rule fold_fixed) (simp add: clamp_num toUint8Clamp_num)
  then show ?thesis
    unfolding adjustContrast_def Let_def contrast_channel_zero by simp
qed

lemma gammaLookupTable_one: "gammaLookupTable 1 ! unat b = (b :: u8)"
proof -
  define i where "i = unat b"
  have "i < 2 ^ LENGTH(8)" unfolding i_def by (rule unsigned_less)
  then have i: "i < 256" by simp
  have "mathPow (real i / 255) (1 / 1) * 255 = real i"
    by (simp add: mathPow_def)
  moreover have "clamp (real i) 0 255 = real i" using i by (simp add: clamp_def)
  moreover have "toUint8 (real i) = of_nat i" by (simp add: toUint8_def mathTrunc_def)
  ultimately have "gammaLookupTable 1 ! i = of_nat i"
    using i by (simp add: gammaLookupTable_def Let_def del: upt_Suc)
  then show ?thesis by (simp add: i_def)
qed

lemma adjustGamma_one: "adjustGamma imageData 1 = imageData"
proof -
  have "fold (\<lambda>i result.
          result[i := gammaLookupTable 1 ! unat (data imageData ! i),
                 i + 1 := gammaLookupTable 1 ! unat (data imageData ! (i + 1)),
                 i + 2 := gammaLookupTable 1 ! unat (data imageData ! (i + 2)),
                 i + 3 := data imageData ! (i + 3)])
        (pixelStarts (length (data imageData))) (data imageData) = data imageData"
    by (rule fold_fixed) (simp add: gammaLookupTable_one)
  then show ?thesis by (simp add: adjustGamma_def Let_def)
qed

text \<open>
  Claim C5. Brightness 0, gamma 1.0 and contrast 0 each return a buffer equal to
  the input, byte for byte: the gamma table at 1.0 maps every byte to itself and
  the contrast factor at 0 is 1.
\<close>

theorem noop_parameters_identity:
  "adjustBrightness imageData 0 = imageData
   \<and> adjustGamma imageData 1.0 = imageData
   \<and> adjustContrast imageData 0 = imageData"
  using adjustBrightness_zero adjustGamma_one adjustContrast_zero by simp

section \<open>Loops that write from fixed data\<close>

text \<open>
  When every step of a loop overwrites a set of positions with values that do not
  depend on the array being written, the loop leaves the value at every position
  that some step writes and the initial content elsewhere.
\<close>

lemma fold_writes:
  fixes step :: "'x \<Rightarrow> 'a list \<Rightarrow> 'a list"
  assumes "length res0 = n"
    and "\<And>x res. x \<in> set xs \<Longrightarrow> length res = n \<Longrightarrow>
           length (step x res) = n
           \<and> (\<forall>j<n. step x res ! j = (if j \<in> W x then G j else res ! j))"
  shows "length (fold step xs res0) = n
     \<and> (\<forall>j<n. fold step xs res0 ! j = (if \<exists>x\<in>set xs. j \<in> W x then G j else res0 ! j))"
  using assms
proof (induction xs arbitrary: res0)
  case Nil
  then show ?case by simp
next
  case (Cons x xs)
  have first: "length (step x res0) = n
      \<and> (\<forall>j<n. step x res0 ! j = (if j \<in> W x then G j else res0 ! j))"
    using Cons.prems(2) [of x res0] Cons.prems(1) by simp
  have rest: "length (fold step xs (step x res0)) = n
      \<and> (\<forall>j<n. fold step xs (step x res0) ! j
            = (if \<exists>x\<in>set xs. j \<in> W x then G j else step x res0 ! j))"
    using first Cons.prems(2) by (intro Cons.IH) simp_all
  show ?case
  proof (intro conjI allI impI)
    show "length (fold step (x # xs) res0) = n" using rest by simp
  next
    fix j assume j: "j < n"
    show "fold step (x # xs) res0 ! j
        = (if \<exists>x\<in>set (x # xs). j \<in> W x then G j else res0 ! j)"
    proof (cases "\<exists>x\<in>set xs. j \<in> W x")
      case True
      then show ?thesis using rest j by auto
    next
      case False
      then have "fold step (x # xs) res0 ! j = step x res0 ! j" using rest j by simp
      also have "\<dots> = (if j \<in> W x then G j else res0 ! j)" using first j by simp
      finally show ?thesis using False by simp
    qed
  qed
qed

lemma nested_fold_product:
  "fold (\<lambda>y. fold (\<lambda>x. f x y) xs) ys s = fold (\<lambda>p. f (snd p) (fst p)) (List.product ys xs) s"
proof (induction ys arbitrary: s)
  case Nil
  then show ?case by simp
next
  case (Cons y ys)
  have "fold (\<lambda>p. f (snd p) (fst p)) (map (Pair y) xs) s = fold (\<lambda>x. f x y) xs s"
    by (simp add: fold_map o_def)
  then show ?case using Cons.IH by simp
qed

text \<open>The four bytes of pixel \<open>(x, y)\<close>, and which pixel a byte belongs to.\<close>

lemma pixel_of_byte:
  assumes "x < w" and "x' < w"
    and "(y' * w + x') * 4 \<le> (y * w + x) * 4 + c" and "(y * w + x) * 4 + c < (y' * w + x') * 4 + 4"
    and "c < (4::nat)"
  shows "x' = x \<and> y' = y"
proof -
  have "a = b" if "a * 4 \<le> b * 4 + c" and "b * 4 + c < a * 4 + 4" for a b :: nat
    using that assms(5) by linarith
  then have k: "y' * w + x' = y * w + x" using assms(3,4) by blast
  then have "(y' * w + x') mod w = (y * w + x) mod w" "(y' * w + x') div w = (y * w + x) div w"
    by simp_all
  then show ?thesis using assms(1,2) by simp
qed

section \<open>Contour extraction\<close>

lemma four_bytes_nth:
  assumes "k * 4 + 3 < length res" and "j < length res"
  shows "res[k * 4 := a, k * 4 + 1 := b, k * 4 + 2 := c, k * 4 + 3 := e] ! j
     = (if j = k * 4 then a else if j = k * 4 + 1 then b else if j = k * 4 + 2 then c
        else if j = k * 4 + 3 then e else res ! j)"
  using assms by (simp add: nth_list_update)

lemma interior_index:
  assumes "1 \<le> x" and "x < w - 1" and "1 \<le> y" and "y < h - 1"
  shows "y * w + x - 1 = y * w + (x - 1)" and "y * w + x - w = (y - 1) * w + x"
    and "y * w + x + w = (y + 1) * w + x" and "y * w + x + 1 = y * w + (x + 1)"
    and "(y + 1) * w + x < w * h" and "y * w + (x + 1) < w * h"
    and "(y - 1) * w + x < w * h" and "y * w + (x - 1) < w * h" and "y * w + x < w * (h::nat)"
proof -
  show "y * w + x - 1 = y * w + (x - 1)" using assms(1) by simp
  obtain y' where y': "y = Suc y'" using assms(3) by (cases y) simp_all
  show "y * w + x - w = (y - 1) * w + x" by (simp add: y')
  show "y * w + x + w = (y + 1) * w + x" by simp
  show "y * w + x + 1 = y * w + (x + 1)" by simp
  have xw: "x + 1 < w" using assms(2) by simp
  have yh: "y + 1 < h" using assms(4) by simp
  have "(y + 1) * w + (x + 1) < Suc (y + 1) * w" using xw by simp
  also have "\<dots> \<le> h * w" using yh by (intro mult_le_mono1) simp
  finally have top: "(y + 1) * w + (x + 1) < w * h" by (simp add: mult.commute)
  then show "(y + 1) * w + x < w * h" by simp
  have "y * w + (x + 1) \<le> (y + 1) * w + (x + 1)" by simp
  then show "y * w + (x + 1) < w * h" using top by linarith
  then show "y * w + x < w * h" "y * w + (x - 1) < w * h" by simp_all
  have "(y - 1) * w + x \<le> y * w + x" by (simp add: y')
  then show "(y - 1) * w + x < w * h" using \<open>y * w + x < w * h\<close> by linarith
qed


lemma extractContours_nth:
  assumes wf: "wellFormed imageData" and x: "x < width imageData" and y: "y < height imageData"
    and c: "c < 4"
  shows "data (extractContours imageData t) ! ((y * width imageData + x) * 4 + c)
     = (if \<not> onBorder imageData x y \<and> contourPixel imageData t x y
        then (if c = 3 then 255 else 0) else 255)"
proof -
  define w h d where "w = width imageData" and "h = height imageData" and "d = data imageData"
  define n where "n = w * h * 4"
  define binary where
    "binary = map (\<lambda>i. if getGrayOnWhite64 d (i * 4) < t then 1 else 0 :: nat) [0..<w * h]"
  define hit where "hit idx \<longleftrightarrow> binary ! idx = 1
      \<and> (binary ! (idx - 1) = 0 \<or> binary ! (idx + 1) = 0
          \<or> binary ! (idx - w) = 0 \<or> binary ! (idx + w) = 0)" for idx
  define step where "step p res =
      (if binary ! (fst p * w + snd p) = 1 then
         if binary ! (fst p * w + snd p - 1) = 0 \<or> binary ! (fst p * w + snd p + 1) = 0
            \<or> binary ! (fst p * w + snd p - w) = 0 \<or> binary ! (fst p * w + snd p + w) = 0
         then res[(fst p * w + snd p) * 4 := 0, (fst p * w + snd p) * 4 + 1 := 0,
                  (fst p * w + snd p) * 4 + 2 := 0, (fst p * w + snd p) * 4 + 3 := 255]
         else res
       else res)" for p and res :: "u8 list"
  have step_hit: "step p res =
      (if hit (fst p * w + snd p)
       then res[(fst p * w + snd p) * 4 := 0, (fst p * w + snd p) * 4 + 1 := 0,
                (fst p * w + snd p) * 4 + 2 := 0, (fst p * w + snd p) * 4 + 3 := 255]
       else res)" for p res
    by (simp add: step_def hit_def)
  define W where "W p = (if hit (fst p * w + snd p)
      then {j. (fst p * w + snd p) * 4 \<le> j \<and> j < (fst p * w + snd p) * 4 + 4} else {})"
    for p :: "nat \<times> nat"
  define G where "G j = (if j mod 4 = 3 then 255 else 0 :: u8)" for j :: nat
  define cells where "cells = List.product [1..<h - 1] [1..<w - 1]"
  have len: "length d = n" using wf by (simp add: wellFormed_def n_def w_def h_def d_def)
  have xw: "x < w" and yh: "y < h" using x y by (simp_all add: w_def h_def)
  have out: "data (extractContours imageData t) = fold step cells (replicate (length d) 255)"
    unfolding extractContours_def Let_def nested_fold_product cells_def step_def [abs_def]
      binary_def w_def h_def d_def
    by (simp only: ProcessingImageData.select_convs)
  have stepw: "length (step p res) = n
      \<and> (\<forall>j<n. step p res ! j = (if j \<in> W p then G j else res ! j))"
    if p: "p \<in> set cells" and lr: "length res = n" for p res
  proof (cases "hit (fst p * w + snd p)")
    case False
    then show ?thesis using lr by (simp add: step_hit W_def)
  next
    case True
    define k where "k = fst p * w + snd p"
    have "1 \<le> snd p" "snd p < w - 1" "1 \<le> fst p" "fst p < h - 1"
      using p by (auto simp add: cells_def)
    then have "k < w * h" unfolding k_def by (rule interior_index)
    then have k3: "k * 4 + 3 < length res" using lr by (simp add: n_def)
    have "res[k * 4 := 0, k * 4 + 1 := 0, k * 4 + 2 := 0, k * 4 + 3 := 255] ! j
        = (if k * 4 \<le> j \<and> j < k * 4 + 4 then G j else res ! j)" if "j < n" for j
    proof -
      have "j mod 4 = 3 \<longleftrightarrow> j = k * 4 + 3" if "k * 4 \<le> j" "j < k * 4 + 4"
        using that by presburger
      moreover have "k * 4 \<le> j \<and> j < k * 4 + 4
          \<longleftrightarrow> j = k * 4 \<or> j = k * 4 + 1 \<or> j = k * 4 + 2 \<or> j = k * 4 + 3"
        by linarith
      ultimately show ?thesis
        using four_bytes_nth [OF k3, of j 0 0 0 255] \<open>j < n\<close> lr
        by (auto simp add: G_def)
    qed
    then show ?thesis using True lr by (simp add: step_hit W_def k_def)
  qed
  have "length (fold step cells (replicate (length d) 255)) = n
      \<and> (\<forall>j<n. fold step cells (replicate (length d) 255) ! j
            = (if \<exists>p\<in>set cells. j \<in> W p then G j else replicate (length d) 255 ! j))"
    by (rule fold_writes) (use len stepw in simp_all)
  moreover define j where "j = (y * w + x) * 4 + c"
  moreover have jn: "j < n"
    using pixel_index_bound [OF xw yh] c by (simp add: j_def n_def)
  ultimately have val: "data (extractContours imageData t) ! j
      = (if \<exists>p\<in>set cells. j \<in> W p then G j else 255)"
    using out len by simp
  have "(k * 4 + c) mod 4 = c" for k using c by simp
  then have Gj: "G j = (if c = 3 then 255 else 0)"
    by (simp only: G_def j_def)
  have interior: "\<not> onBorder imageData x y \<longleftrightarrow> 1 \<le> x \<and> x < w - 1 \<and> 1 \<le> y \<and> y < h - 1"
    using xw yh by (auto simp add: onBorder_def w_def h_def)
  have covered: "(\<exists>p\<in>set cells. j \<in> W p)
      \<longleftrightarrow> 1 \<le> x \<and> x < w - 1 \<and> 1 \<le> y \<and> y < h - 1 \<and> hit (y * w + x)"
  proof
    assume "\<exists>p\<in>set cells. j \<in> W p"
    then obtain p where p: "p \<in> set cells" and jp: "j \<in> W p" by blast
    have pb: "1 \<le> snd p" "snd p < w - 1" "1 \<le> fst p" "fst p < h - 1"
      using p by (auto simp add: cells_def)
    have h: "hit (fst p * w + snd p)" using jp by (simp add: W_def split: if_splits)
    with jp have "(fst p * w + snd p) * 4 \<le> (y * w + x) * 4 + c"
        "(y * w + x) * 4 + c < (fst p * w + snd p) * 4 + 4"
      by (simp_all add: W_def j_def)
    with pixel_of_byte [OF xw, of "snd p" "fst p" y c] pb(2) c
    have "snd p = x \<and> fst p = y" by simp
    with pb h show "1 \<le> x \<and> x < w - 1 \<and> 1 \<le> y \<and> y < h - 1 \<and> hit (y * w + x)" by auto
  next
    assume a: "1 \<le> x \<and> x < w - 1 \<and> 1 \<le> y \<and> y < h - 1 \<and> hit (y * w + x)"
    then have "(y, x) \<in> set cells" by (simp add: cells_def)
    moreover have "j \<in> W (y, x)" using a c by (simp add: W_def j_def)
    ultimately show "\<exists>p\<in>set cells. j \<in> W p" by blast
  qed
  have hit_contour: "hit (y * w + x) \<longleftrightarrow> contourPixel imageData t x y"
    if i: "1 \<le> x" "x < w - 1" "1 \<le> y" "y < h - 1"
  proof -
    note ix = interior_index [OF i]
    have b: "binary ! k = (if getGrayOnWhite64 d (k * 4) < t then 1 else 0)" if "k < w * h" for k
      using that by (simp add: binary_def)
    have g: "binary ! (y' * w + x') = (if grayAt imageData x' y' < t then 1 else 0)"
      if "y' * w + x' < w * h" for x' y'
      using b [OF that] by (simp only: grayAt_def w_def d_def)
    show ?thesis
      unfolding hit_def ix(1-4) contourPixel_def g [OF ix(5)] g [OF ix(6)] g [OF ix(7)]
        g [OF ix(8)] g [OF ix(9)]
      by (simp add: not_less)
  qed
  show ?thesis
    using val covered hit_contour interior Gj unfolding j_def w_def by auto
qed


text \<open>
  Claim C7. In a well-formed buffer, \<open>extractContours\<close> leaves the pixel \<open>(x, y)\<close>
  black and opaque exactly when it is not on the border of the image, its gray is
  below the threshold and one of its four neighbours has a gray at or above the
  threshold; every other pixel is white and opaque. The gray of a pixel is the
  binary64 number that \<open>getGrayOnWhite\<close> computes for it. The claim's last clause,
  that border pixels are never black, limits its first one to the pixels off the
  border, as the loop bounds of the function do.
\<close>

theorem extractContours_pixels:
  assumes "wellFormed imageData" and "x < width imageData" and "y < height imageData"
  shows "rgba (extractContours imageData t) x y
           = (if \<not> onBorder imageData x y \<and> contourPixel imageData t x y
              then (0, 0, 0, 255) else (255, 255, 255, 255))
         \<and> (onBorder imageData x y
              \<longrightarrow> rgba (extractContours imageData t) x y = (255, 255, 255, 255))"
proof -
  have w: "width (extractContours imageData t) = width imageData"
    by (simp add: extractContours_def Let_def)
  have "rgba (extractContours imageData t) x y
      = (if \<not> onBorder imageData x y \<and> contourPixel imageData t x y
         then (0, 0, 0, 255) else (255, 255, 255, 255))"
    using extractContours_nth [OF assms, of 0 t] extractContours_nth [OF assms, of 1 t]
      extractContours_nth [OF assms, of 2 t] extractContours_nth [OF assms, of 3 t]
    by (simp add: rgba_def Let_def w)
  then show ?thesis by simp
qed

text \<open>
  The centre of \<open>grayCentre\<close> is \<open>(128, 128, 128)\<close>: its gray is 128 over the reals
  and the binary64 number next below 128 in the function, so that at the threshold
  128 the centre is a contour pixel.
\<close>

lemma grayCentre_gray:
  "grayAt grayCentre 1 1 = 128 - 1 / 2 ^ 46" "grayAt grayCentre 0 1 = 255"
  by (simp_all add: grayAt_def getGrayOnWhite64_def grayCentre_def num_def fl_eval)

theorem extractContours_pixels_witness:
  "wellFormed grayCentre \<and> 1 < width grayCentre \<and> 1 < height grayCentre
   \<and> \<not> onBorder grayCentre 1 1 \<and> contourPixel grayCentre 128 1 1
   \<and> rgba (extractContours grayCentre 128) 1 1 = (0, 0, 0, 255)"
proof -
  have wf: "wellFormed grayCentre" by (simp add: wellFormed_def grayCentre_def)
  have x: "1 < width grayCentre" and y: "1 < height grayCentre"
    by (simp_all add: grayCentre_def)
  have b: "\<not> onBorder grayCentre 1 1" by (simp add: onBorder_def grayCentre_def)
  have c: "contourPixel grayCentre 128 1 1"
    by (simp only: contourPixel_def grayCentre_gray diff_self_eq_0) simp
  show ?thesis
    using extractContours_pixels [OF wf x y, of 128] wf x y b c by simp
qed

section \<open>Mask application\<close>

lemma mathRound_of_int: "mathRound (real_of_int r) = r"
  by (simp add: mathRound_def)











section \<open>Preset lookup\<close>

lemma presets_keys: "map fst presets = catalogue"
  by (simp add: presets_def catalogue_def)

lemma presets_key_set: "fst ` set presets = set catalogue"
proof -
  have "set (map fst presets) = set catalogue" by (simp only: presets_keys)
  then show ?thesis by (simp only: set_map)
qed

lemma lookupPreset_known:
  assumes "presetName \<in> set catalogue"
  shows "\<exists>preset. lookupPreset presetName = Own preset"
proof -
  have "presetName \<in> fst ` set presets" using assms by (simp add: presets_key_set)
  then have "map_of presets presetName \<noteq> None" by (simp only: map_of_eq_None_iff not_not)
  then obtain preset where "map_of presets presetName = Some preset" by blast
  then show ?thesis by (simp add: lookupPreset_def)
qed

lemma lookupPreset_unknown:
  assumes "presetName \<notin> set catalogue"
  shows "lookupPreset presetName
     = (if presetName \<in> set objectPrototypeKeys then Inherited else Undefined)"
proof -
  have "presetName \<notin> fst ` set presets" using assms by (simp add: presets_key_set)
  then have "map_of presets presetName = None" by (simp add: map_of_eq_None_iff)
  then show ?thesis by (simp add: lookupPreset_def)
qed

text \<open>
  Claim C3. For a preset id outside the catalogue \<open>applyPreset\<close> returns no buffer but
  an error: its own unknown-preset error, or a type error when the id names a
  property that every object inherits. For each of the ten catalogued ids it
  returns a buffer.
\<close>

theorem applyPreset_unknown_id:
  "(presetName \<notin> set catalogue \<longrightarrow>
      applyPreset imageData presetName
        = Inl (if presetName \<in> set objectPrototypeKeys then TypeError
               else UnknownPreset presetName))
   \<and> (presetName \<in> set catalogue \<longrightarrow>
      (\<exists>result. applyPreset imageData presetName = Inr result))"
proof (intro conjI impI)
  assume "presetName \<notin> set catalogue"
  then show "applyPreset imageData presetName
      = Inl (if presetName \<in> set objectPrototypeKeys then TypeError else UnknownPreset presetName)"
    by (simp add: applyPreset_def lookupPreset_unknown)
next
  assume "presetName \<in> set catalogue"
  then obtain preset where "lookupPreset presetName = Own preset"
    using lookupPreset_known by blast
  then show "\<exists>result. applyPreset imageData presetName = Inr result"
    by (simp add: applyPreset_def)
qed

theorem applyPreset_unknown_id_witness:
  "''not-a-real-preset'' \<notin> set catalogue
   \<and> applyPreset grayPair ''not-a-real-preset'' = Inl (UnknownPreset ''not-a-real-preset'')
   \<and> ''trueTone'' \<in> set catalogue
   \<and> (\<exists>result. applyPreset grayPair ''trueTone'' = Inr result)"
proof -
  have a: "''not-a-real-preset'' \<notin> set catalogue" and b: "''trueTone'' \<in> set catalogue"
    by (simp_all add: catalogue_def)
  have c: "''not-a-real-preset'' \<notin> set objectPrototypeKeys"
    by (simp add: objectPrototypeKeys_def)
  show ?thesis
    using applyPreset_unknown_id [of "''not-a-real-preset''" grayPair]
      applyPreset_unknown_id [of "''trueTone''" grayPair] a b c
    by simp
qed

section \<open>Canny edge detection on a uniform image\<close>

lemma upto_unit: "[- 1..1] = [- 1, 0, 1 :: int]"
  by code_simp

lemma replicate_16: "replicate 16 v = [v, v, v, v, v, v, v, v, v, v, v, v, v, v, v, v]"
  by (simp add: numeral_eq_Suc)

lemma whiteSquare_gray:
  "map (\<lambda>i. getGrayOnWhite (data whiteSquare) (i * 4)) [0..<4 * 4]
     = [255, 255, 255, 255, 255, 255, 255, 255, 255, 255, 255, 255, 255, 255, 255, 255]"
  by (simp add: whiteSquare_def getGrayOnWhite_def num_def upt_rec)

lemma whiteSquare_blurred:
  "gaussianBlur 4 4 [255, 255, 255, 255, 255, 255, 255, 255, 255, 255, 255, 255, 255, 255, 255, 255]
     = [0, 0, 0, 0,  0, 255, 255, 0,  0, 255, 255, 0,  0, 0, 0, 0]"
  by (simp add: gaussianBlur_def gaussKernel_def upt_rec upto_unit replicate_16)

lemma whiteSquare_gradients:
  "gradients 4 4 [0, 0, 0, 0,  0, 255, 255, 0,  0, 255, 255, 0,  0, 0, 0, 0]
     = ([0, 0, 0, 0,  0, sqrt 1170450, sqrt 1170450, 0,  0, sqrt 1170450, sqrt 1170450, 0,
         0, 0, 0, 0],
        [0, 0, 0, 0,  0, pi / 4, 3 * pi / 4, 0,  0, - (pi / 4), - (3 * pi / 4), 0,  0, 0, 0, 0])"
  by (simp add: gradients_def sobelX_def sobelY_def mathAtan2_def upt_rec arctan_one arctan_minus replicate_16)


lemma sqrt_strong: "150 \<le> sqrt 1170450"
  by (rule real_le_rsqrt) simp

lemma whiteSquare_suppressed:
  "nonMaxSuppression 4 4
     [0, 0, 0, 0,  0, sqrt 1170450, sqrt 1170450, 0,  0, sqrt 1170450, sqrt 1170450, 0,  0, 0, 0, 0]
     [0, 0, 0, 0,  0, pi / 4, 3 * pi / 4, 0,  0, - (pi / 4), - (3 * pi / 4), 0,  0, 0, 0, 0]
   = [0, 0, 0, 0,  0, sqrt 1170450, sqrt 1170450, 0,  0, sqrt 1170450, sqrt 1170450, 0,  0, 0, 0, 0]"
  by (simp add: nonMaxSuppression_def upt_rec replicate_16)

lemma whiteSquare_thresholds:
  "doubleThreshold 4 4
     [0, 0, 0, 0,  0, sqrt 1170450, sqrt 1170450, 0,  0, sqrt 1170450, sqrt 1170450, 0,  0, 0, 0, 0]
     50 150
   = [0, 0, 0, 0,  0, 2, 2, 0,  0, 2, 2, 0,  0, 0, 0, 0]"
  using sqrt_strong by (simp add: doubleThreshold_def upt_rec replicate_16)

lemma whiteSquare_pass:
  "hysteresisPass 4 4 [0, 0, 0, 0,  0, 2, 2, 0,  0, 2, 2, 0,  0, 0, 0, 0]
     = ([0, 0, 0, 0,  0, 2, 2, 0,  0, 2, 2, 0,  0, 0, 0, 0], False)"
  by (simp add: hysteresisPass_def upt_rec)

lemma whiteSquare_hysteresis:
  "hysteresis 4 4 [0, 0, 0, 0,  0, 2, 2, 0,  0, 2, 2, 0,  0, 0, 0, 0]
     = Some [0, 0, 0, 0,  0, 2, 2, 0,  0, 2, 2, 0,  0, 0, 0, 0]"
  by (subst hysteresis.simps) (simp add: whiteSquare_pass)


lemma whiteSquare_edgeImage:
  "edgeImage 4 4 [0, 0, 0, 0,  0, 2, 2, 0,  0, 2, 2, 0,  0, 0, 0, 0]
     = \<lparr>width = 4, height = 4,
        data = [255, 255, 255, 255,  255, 255, 255, 255,  255, 255, 255, 255,  255, 255, 255, 255,
                255, 255, 255, 255,  0, 0, 0, 255,        0, 0, 0, 255,        255, 255, 255, 255,
                255, 255, 255, 255,  0, 0, 0, 255,        0, 0, 0, 255,        255, 255, 255, 255,
                255, 255, 255, 255,  255, 255, 255, 255,  255, 255, 255, 255,  255, 255, 255, 255]\<rparr>"
  by (simp add: edgeImage_def upt_rec numeral_eq_Suc)

text \<open>
  Claim C6 fails on the code. The blur fills the interior of its array only, the
  border staying 0, and the Sobel pass reads that border: on a uniform image every
  interior pixel next to the border sees a step from 0 to the image's gray. On a
  4x4 opaque white image with the default thresholds 50 and 150 the four interior
  pixels come out black.
\<close>

theorem canny_uniform_white_marks_edges:
  "cannyEdgeDetection whiteSquare 50 150
     = Some \<lparr>width = 4, height = 4,
        data = [255, 255, 255, 255,  255, 255, 255, 255,  255, 255, 255, 255,  255, 255, 255, 255,
                255, 255, 255, 255,  0, 0, 0, 255,        0, 0, 0, 255,        255, 255, 255, 255,
                255, 255, 255, 255,  0, 0, 0, 255,        0, 0, 0, 255,        255, 255, 255, 255,
                255, 255, 255, 255,  255, 255, 255, 255,  255, 255, 255, 255,  255, 255, 255, 255]\<rparr>"
proof -
  have "width whiteSquare = 4" "height whiteSquare = 4" by (simp_all add: whiteSquare_def)
  then show ?thesis
    unfolding cannyEdgeDetection_def Let_def
    by (simp only: whiteSquare_gray whiteSquare_blurred whiteSquare_gradients fst_conv snd_conv
        whiteSquare_suppressed whiteSquare_thresholds whiteSquare_hysteresis option.map
        whiteSquare_edgeImage)
qed

section \<open>Floyd-Steinberg against its description\<close>

lemma getGray_eq: "getGray d idx = getGrayOnWhite64 d idx"
  by (simp add: getGray_def getGrayOnWhite64_def)

lemma fold_upt_parallel:
  assumes "P 0 s t" and "\<And>k s t. k < n \<Longrightarrow> P k s t \<Longrightarrow> P (Suc k) (f k s) (g k t)"
  shows "P n (fold f [0..<n] s) (fold g [0..<n] t)"
  using assms
proof (induction n)
  case 0
  then show ?case by simp
next
  case (Suc n)
  have "P n (fold f [0..<n] s) (fold g [0..<n] t)"
    by (rule Suc.IH) (use Suc.prems in auto)
  then show ?case using Suc.prems(2) [of n] by simp
qed

lemma fold_rows:
  "fold step (concat (map (\<lambda>y. map (\<lambda>x. c x y) xs) ys)) s
     = fold (\<lambda>y. fold (\<lambda>x. step (c x y)) xs) ys s"
  by (induction ys arbitrary: s) (simp_all add: fold_map o_def)

lemma scanOrder_fold:
  "fold step (scanOrder w h) s
     = fold (\<lambda>k. step (int (k mod w), int (k div w))) [0..<h * w] s"
proof -
  have "fold step (scanOrder w h) s
      = fold (\<lambda>y. fold (\<lambda>x. step (int x, int y)) [0..<w]) [0..<h] s"
    unfolding scanOrder_def by (rule fold_rows)
  then show ?thesis by (simp only: nested_fold_flat)
qed

lemma flat_index_iff:
  assumes "a < w"
  shows "j = b * w + a \<longleftrightarrow> j mod w = a \<and> j div w = (b::nat)"
proof
  assume "j = b * w + a"
  then show "j mod w = a \<and> j div w = b" using assms by simp
next
  assume "j mod w = a \<and> j div w = b"
  then have "j div w * w + j mod w = b * w + a" by simp
  then show "j = b * w + a" by simp
qed

lemma addAt_length [simp]: "length (addAt errors i v) = length errors"
  by (simp add: addAt_def)

text \<open>
  One addition to the accumulator, at a pixel inside the image, keeps the two
  accumulators in agreement.
\<close>

lemma accAgree_addAt:
  assumes "accAgree w h errors acc" and "a < w" and "b < h"
  shows "accAgree w h (addAt errors (b * w + a) v)
           (acc((int a, int b) := fround (fl64 (acc (int a, int b) + v))))"
  unfolding accAgree_def
proof (intro conjI allI impI)
  show "length (addAt errors (b * w + a) v) = h * w"
    using assms(1) by (simp add: accAgree_def)
next
  fix j assume j: "j < h * w"
  have len: "j < length errors" and same: "errors ! j = acc (int (j mod w), int (j div w))"
    using assms(1) j by (simp_all add: accAgree_def)
  show "addAt errors (b * w + a) v ! j
      = (acc((int a, int b) := fround (fl64 (acc (int a, int b) + v))))
          (int (j mod w), int (j div w))"
  proof (cases "j = b * w + a")
    case True
    have m: "j mod w = a" "j div w = b"
      using flat_index_iff [OF assms(2), of j b] True by blast+
    have "addAt errors j v ! j = fround (fl64 (errors ! j + v))"
      using len by (simp add: addAt_def)
    then show ?thesis unfolding True [symmetric] same m by simp
  next
    case False
    then have "(int (j mod w), int (j div w)) \<noteq> (int a, int b)"
      using flat_index_iff [OF assms(2), of j b] by auto
    then have "(acc((int a, int b) := fround (fl64 (acc (int a, int b) + v))))
          (int (j mod w), int (j div w)) = acc (int (j mod w), int (j div w))"
      by (rule fun_upd_other)
    moreover have "addAt errors (b * w + a) v ! j = errors ! j"
      using False by (simp add: addAt_def)
    ultimately show ?thesis using same by simp
  qed
qed

lemma accAgree_target:
  assumes "accAgree w h errors acc"
    and "guard \<longleftrightarrow> inBounds w h q"
    and "guard \<Longrightarrow> a < w \<and> b < h \<and> t = b * w + a \<and> q = (int a, int b)"
  shows "accAgree w h (if guard then addAt errors t v else errors)
           (if inBounds w h q then acc(q := fround (fl64 (acc q + v))) else acc)"
proof (cases guard)
  case True
  with assms(3) have ab: "a < w" "b < h" and t: "t = b * w + a" and q: "q = (int a, int b)"
    by blast+
  have "inBounds w h q" using True assms(2) by blast
  then show ?thesis
    unfolding t q using accAgree_addAt [OF assms(1) ab, of v] True by (simp only: if_True)
next
  case False
  then show ?thesis using assms(1,2) by simp
qed

text \<open>
  One distribution step: the flat accumulator of the function and the accumulator
  of the description, in agreement before the step, are in agreement after it.
\<close>


text \<open>
  One distribution step: the flat accumulator of the function and the accumulator
  of the description, in agreement before the step, are in agreement after it.
\<close>

lemma fsDistribute_refines:
  assumes x: "x < w" and y: "y < h" and agree: "accAgree w h errors acc"
  shows "accAgree w h (fsDistribute w h x y e errors)
           (specDistribute w h (int x, int y) e acc)"
proof -
  define share where "share k = fl64 (fl64 (e * k) / 16)" for k :: real
  define put where "put q k acc =
      (if inBounds w h q then acc(q := fround (fl64 (acc q + share k))) else acc)"
    for q k and acc :: "int \<times> int \<Rightarrow> real"
  define e1 where "e1 = (if x + 1 < w then addAt errors (y * w + x + 1) (share 7) else errors)"
  define e2 where "e2 = (if y + 1 < h \<and> x > 0 then addAt e1 (y * w + x + w - 1) (share 3) else e1)"
  define e3 where "e3 = (if y + 1 < h then addAt e2 (y * w + x + w) (share 5) else e2)"
  define e4 where "e4 = (if y + 1 < h \<and> x + 1 < w then addAt e3 (y * w + x + w + 1) (share 1)
                         else e3)"
  have code: "fsDistribute w h x y e errors = e4"
    unfolding fsDistribute_def Let_def e1_def e2_def e3_def e4_def share_def by simp
  have spec: "specDistribute w h (int x, int y) e acc
      = put (int x + 1, int y + 1) 1 (put (int x, int y + 1) 5
          (put (int x - 1, int y + 1) 3 (put (int x + 1, int y) 7 acc)))"
    unfolding specDistribute_def fsWeights_def Let_def put_def [abs_def] share_def by simp
  have t1: "x + 1 < w \<longleftrightarrow> inBounds w h (int x + 1, int y)"
    using y by (auto simp add: inBounds_def)
  have t2: "y + 1 < h \<and> x > 0 \<longleftrightarrow> inBounds w h (int x - 1, int y + 1)"
    using x by (auto simp add: inBounds_def)
  have t3: "y + 1 < h \<longleftrightarrow> inBounds w h (int x, int y + 1)"
    using x by (auto simp add: inBounds_def)
  have t4: "y + 1 < h \<and> x + 1 < w \<longleftrightarrow> inBounds w h (int x + 1, int y + 1)"
    by (auto simp add: inBounds_def)
  have "accAgree w h e1 (put (int x + 1, int y) 7 acc)"
    unfolding e1_def put_def
  proof (rule accAgree_target [OF agree t1, where a = "x + 1" and b = y])
    assume "x + 1 < w"
    then show "x + 1 < w \<and> y < h \<and> y * w + x + 1 = y * w + (x + 1)
        \<and> (int x + 1, int y) = (int (x + 1), int y)"
      using y by simp
  qed
  then have "accAgree w h e2 (put (int x - 1, int y + 1) 3 (put (int x + 1, int y) 7 acc))"
    unfolding e2_def put_def [of "(int x - 1, int y + 1)"]
  proof (rule accAgree_target [OF _ t2, where a = "x - 1" and b = "y + 1"])
    assume g: "y + 1 < h \<and> 0 < x"
    then have "y * w + x + w - 1 = (y + 1) * w + (x - 1)" by simp
    moreover have "int x - 1 = int (x - 1)" using g by simp
    ultimately show "x - 1 < w \<and> y + 1 < h \<and> y * w + x + w - 1 = (y + 1) * w + (x - 1)
        \<and> (int x - 1, int y + 1) = (int (x - 1), int (y + 1))"
      using g x by simp
  qed
  then have "accAgree w h e3
      (put (int x, int y + 1) 5 (put (int x - 1, int y + 1) 3 (put (int x + 1, int y) 7 acc)))"
    unfolding e3_def put_def [of "(int x, int y + 1)"]
  proof (rule accAgree_target [OF _ t3, where a = x and b = "y + 1"])
    assume g: "y + 1 < h"
    then show "x < w \<and> y + 1 < h \<and> y * w + x + w = (y + 1) * w + x
        \<and> (int x, int y + 1) = (int x, int (y + 1))"
      using x by simp
  qed
  then have "accAgree w h e4
      (put (int x + 1, int y + 1) 1 (put (int x, int y + 1) 5
         (put (int x - 1, int y + 1) 3 (put (int x + 1, int y) 7 acc))))"
    unfolding e4_def put_def [of "(int x + 1, int y + 1)"]
  proof (rule accAgree_target [OF _ t4, where a = "x + 1" and b = "y + 1"])
    assume g: "y + 1 < h \<and> x + 1 < w"
    then show "x + 1 < w \<and> y + 1 < h \<and> y * w + x + w + 1 = (y + 1) * w + (x + 1)
        \<and> (int x + 1, int y + 1) = (int (x + 1), int (y + 1))"
      by simp
  qed
  then show ?thesis by (simp only: code spec)
qed


lemma num_toUint8Clamp_quantised:
  "num (toUint8Clamp (if (v::real) < 128 then 0 else 255)) = (if v < 128 then 0 else 255)"
  by (simp add: num_def)

lemma fsAgree_step:
  assumes inv: "fsAgree w h k st sp" and k: "k < h * w"
  shows "fsAgree w h (Suc k) (diffusePixel fsDistribute w h d (k mod w) (k div w) st)
           (specStep w h (int (k mod w), int (k div w)) sp)"
proof -
  obtain errors res where st: "st = (errors, res)" by (cases st)
  obtain acc out where sp: "sp = (acc, out)" by (cases sp)
  have w0: "0 < w" using k by (cases w) simp_all
  then have x: "k mod w < w" by simp
  have y: "k div w < h" using k w0 by (simp add: less_mult_imp_div_less)
  have le: "length errors = h * w" and lr: "length res = h * w * 4"
    and acc: "\<And>j. j < h * w \<Longrightarrow> errors ! j = acc (int (j mod w), int (j div w))"
    and visited: "\<And>j. j < k \<Longrightarrow> out (int (j mod w), int (j div w)) = Some (num (res ! (j * 4)))
          \<and> res ! (j * 4 + 1) = res ! (j * 4) \<and> res ! (j * 4 + 2) = res ! (j * 4)"
    using inv by (simp_all add: fsAgree_def st sp)
  define old where "old = errors ! k"
  define new :: real where "new = (if old < 128 then 0 else 255)"
  define res' where "res' = (setPixel res (k * 4) new)[k * 4 + 3 := d ! (k * 4 + 3)]"
  have idx: "k div w * w + k mod w = k" by simp
  have old_acc: "acc (int (k mod w), int (k div w)) = old" using acc [OF k] by (simp add: old_def)
  have code: "diffusePixel fsDistribute w h d (k mod w) (k div w) st
      = (fsDistribute w h (k mod w) (k div w) (fl64 (old - new)) errors, res')"
    by (simp add: diffusePixel_def Let_def st idx old_def new_def res'_def)
  have spec: "specStep w h (int (k mod w), int (k div w)) sp
      = (specDistribute w h (int (k mod w), int (k div w)) (fl64 (old - new)) acc,
         out((int (k mod w), int (k div w)) \<mapsto> new))"
    by (simp add: specStep_def Let_def sp old_acc new_def)
  have lr': "length res' = h * w * 4" using lr by (simp add: res'_def setPixel_def)
  have k3: "k * 4 + 3 < length res" using k lr by simp
  have here: "res' ! (k * 4) = toUint8Clamp new" "res' ! (k * 4 + 1) = toUint8Clamp new"
    "res' ! (k * 4 + 2) = toUint8Clamp new"
    using k3 by (simp_all add: res'_def setPixel_def)
  have before: "res' ! (j * 4 + c) = res ! (j * 4 + c)" if "j < k" "c < 4" for j c
    using that by (simp add: res'_def setPixel_def)
  have apart: "(int (j mod w), int (j div w)) \<noteq> (int (k mod w), int (k div w))" if "j < k" for j
  proof
    assume "(int (j mod w), int (j div w)) = (int (k mod w), int (k div w))"
    then have "j mod w = k mod w" "j div w = k div w" by simp_all
    then have "j div w * w + j mod w = k div w * w + k mod w" by simp
    then show False using that by simp
  qed
  have "accAgree w h errors acc" using le acc by (simp add: accAgree_def)
  then have after: "accAgree w h (fsDistribute w h (k mod w) (k div w) (fl64 (old - new)) errors)
      (specDistribute w h (int (k mod w), int (k div w)) (fl64 (old - new)) acc)"
    by (rule fsDistribute_refines [OF x y])
  have "fsAgree w h (Suc k)
      (fsDistribute w h (k mod w) (k div w) (fl64 (old - new)) errors, res')
      (specDistribute w h (int (k mod w), int (k div w)) (fl64 (old - new)) acc,
       out((int (k mod w), int (k div w)) \<mapsto> new))"
    unfolding fsAgree_def fst_conv snd_conv
  proof (intro conjI allI impI)
    show "length (fsDistribute w h (k mod w) (k div w) (fl64 (old - new)) errors) = h * w"
      using after by (simp add: accAgree_def)
    show "length res' = h * w * 4" by (rule lr')
  next
    fix j assume j: "j < h * w"
    show "fsDistribute w h (k mod w) (k div w) (fl64 (old - new)) errors ! j
        = specDistribute w h (int (k mod w), int (k div w)) (fl64 (old - new)) acc
            (int (j mod w), int (j div w))"
      using after j by (simp add: accAgree_def)
  next
    fix j assume j: "j < Suc k"
    show "(out((int (k mod w), int (k div w)) \<mapsto> new)) (int (j mod w), int (j div w))
        = Some (num (res' ! (j * 4)))"
    proof (cases "j = k")
      case True
      then show ?thesis using here(1) num_toUint8Clamp_quantised [of old] by (simp add: new_def)
    next
      case False
      then have jk: "j < k" using j by simp
      have "(out((int (k mod w), int (k div w)) \<mapsto> new)) (int (j mod w), int (j div w))
          = out (int (j mod w), int (j div w))"
        by (rule fun_upd_other [OF apart [OF jk]])
      then show ?thesis using visited [OF jk] before [OF jk, of 0] by simp
    qed
  next
    fix j assume j: "j < Suc k"
    show "res' ! (j * 4 + 1) = res' ! (j * 4)"
    proof (cases "j = k")
      case True
      then show ?thesis using here by simp
    next
      case False
      then have jk: "j < k" using j by simp
      show ?thesis using visited [OF jk] before [OF jk, of 0] before [OF jk, of 1] by simp
    qed
  next
    fix j assume j: "j < Suc k"
    show "res' ! (j * 4 + 2) = res' ! (j * 4)"
    proof (cases "j = k")
      case True
      then show ?thesis using here by simp
    next
      case False
      then have jk: "j < k" using j by simp
      show ?thesis using visited [OF jk] before [OF jk, of 0] before [OF jk, of 2] by simp
    qed
  qed
  then show ?thesis by (simp only: code spec)
qed


lemma fsAgree_run:
  assumes "wellFormed imageData"
  shows "fsAgree (width imageData) (height imageData) (height imageData * width imageData)
           (fold (\<lambda>k. diffusePixel fsDistribute (width imageData) (height imageData)
                         (data imageData) (k mod width imageData) (k div width imageData))
              [0..<height imageData * width imageData]
              (map (\<lambda>i. fround (getGray (data imageData) (i * 4)))
                 [0..<width imageData * height imageData], data imageData))
           (fold (\<lambda>k. specStep (width imageData) (height imageData)
                         (int (k mod width imageData), int (k div width imageData)))
              [0..<height imageData * width imageData]
              (\<lambda>p. fround (grayAt imageData (nat (fst p)) (nat (snd p))), Map.empty))"
proof (rule fold_upt_parallel
    [where P = "\<lambda>k. fsAgree (width imageData) (height imageData) k"])
  have "getGray (data imageData) (j * 4)
      = grayAt imageData (j mod width imageData) (j div width imageData)" for j
    by (simp add: grayAt_def getGray_eq)
  then show "fsAgree (width imageData) (height imageData) 0
      (map (\<lambda>i. fround (getGray (data imageData) (i * 4)))
         [0..<width imageData * height imageData],
       data imageData)
      (\<lambda>p. fround (grayAt imageData (nat (fst p)) (nat (snd p))), Map.empty)"
    using assms by (simp add: fsAgree_def wellFormed_def mult.commute)
next
  fix k st sp
  assume k: "k < height imageData * width imageData"
    and inv: "fsAgree (width imageData) (height imageData) k st sp"
  from inv k show "fsAgree (width imageData) (height imageData) (Suc k)
      (diffusePixel fsDistribute (width imageData) (height imageData) (data imageData)
         (k mod width imageData) (k div width imageData) st)
      (specStep (width imageData) (height imageData)
         (int (k mod width imageData), int (k div width imageData)) sp)"
    by (rule fsAgree_step)
qed

text \<open>
  Claim C1. On every well-formed buffer the result of \<open>floydSteinberg\<close> is the one
  of the description above: at every pixel the three colour bytes carry the value,
  0 or 255, that the row-major scan with the 128 threshold and the weights 7/16,
  3/16, 5/16 and 1/16, dropped outside the image, assigns to that pixel. Both
  sides keep the accumulator in binary32 and compute in binary64.
\<close>

theorem floydSteinberg_refines_description:
  assumes "wellFormed imageData" and "x < width imageData" and "y < height imageData"
  shows "(case rgba (floydSteinberg imageData) x y of
            (r, g, b, a) \<Rightarrow>
              specFloydSteinberg imageData (int x, int y) = Some (num r) \<and> g = r \<and> b = r)"
proof -
  define w h where "w = width imageData" and "h = height imageData"
  define j where "j = y * w + x"
  have xw: "x < w" and yh: "y < h" using assms(2,3) by (simp_all add: w_def h_def)
  have "j < Suc y * w" using xw by (simp add: j_def)
  also have "\<dots> \<le> h * w" using yh by (intro mult_le_mono1) simp
  finally have j: "j < h * w" .
  have jm: "j mod w = x" and jd: "j div w = y" using xw by (simp_all add: j_def)
  have out: "data (floydSteinberg imageData)
      = snd (fold (\<lambda>k. diffusePixel fsDistribute w h (data imageData) (k mod w) (k div w))
               [0..<h * w]
               (map (\<lambda>i. fround (getGray (data imageData) (i * 4))) [0..<w * h],
                data imageData))"
    by (simp add: floydSteinberg_def errorDiffusion_def Let_def nested_fold_flat w_def h_def)
  have spec: "specFloydSteinberg imageData
      = snd (fold (\<lambda>k. specStep w h (int (k mod w), int (k div w))) [0..<h * w]
               (\<lambda>p. fround (grayAt imageData (nat (fst p)) (nat (snd p))), Map.empty))"
    by (simp add: specFloydSteinberg_def scanOrder_fold w_def h_def)
  have wd: "width (floydSteinberg imageData) = w"
    by (simp add: floydSteinberg_def errorDiffusion_def Let_def w_def)
  have "specFloydSteinberg imageData (int (j mod w), int (j div w))
        = Some (num (data (floydSteinberg imageData) ! (j * 4)))
      \<and> data (floydSteinberg imageData) ! (j * 4 + 1) = data (floydSteinberg imageData) ! (j * 4)
      \<and> data (floydSteinberg imageData) ! (j * 4 + 2) = data (floydSteinberg imageData) ! (j * 4)"
    using fsAgree_run [OF assms(1)] j unfolding out spec fsAgree_def w_def h_def by blast
  then show ?thesis
    unfolding jm jd by (simp add: rgba_def Let_def wd j_def)
qed

text \<open>
  On \<open>tippingPair\<close> the first pixel has the gray \<open>153.4\<close>, is written white and hands
  \<open>-101.6 * 7 / 16\<close> to the second pixel, of gray \<open>172.45\<close>. Over the reals the second
  pixel then holds exactly 128 and would be white; the binary32 accumulator holds
  the number next below 128, and the pixel is black.
\<close>

lemma specFloydSteinberg_tippingPair:
  "specFloydSteinberg tippingPair (0, 0) = Some 255 \<and> specFloydSteinberg tippingPair (1, 0) = Some 0"
  by (simp add: specFloydSteinberg_def scanOrder_def specStep_def specDistribute_def fsWeights_def
        inBounds_def grayAt_def getGrayOnWhite64_def tippingPair_def num_def Let_def upt_rec)
     (simp add: fl_eval)

theorem floydSteinberg_refines_description_witness:
  "wellFormed tippingPair \<and> 1 < width tippingPair \<and> 0 < height tippingPair
   \<and> specFloydSteinberg tippingPair (1, 0) = Some 0
   \<and> (case rgba (floydSteinberg tippingPair) 1 0 of
         (r, g, b, a) \<Rightarrow> num r = 0 \<and> g = r \<and> b = r)"
proof -
  have wf: "wellFormed tippingPair" by (simp add: wellFormed_def tippingPair_def)
  have x: "1 < width tippingPair" and y: "0 < height tippingPair"
    by (simp_all add: tippingPair_def)
  show ?thesis
    using floydSteinberg_refines_description [OF wf x y] wf x y specFloydSteinberg_tippingPair
    by (simp split: prod.splits)
qed

section \<open>Inputs are not written and results are new arrays\<close>

lemma buffers_wr: "buffers (wr s a i v) b = (if b = a then (buffers s a)[i := v] else buffers s b)"
  by (simp add: wr_def)

lemma nextFree_wr [simp]: "nextFree (wr s a i v) = nextFree s"
  by (simp add: wr_def)

lemma keeps_refl [simp]: "keeps n s s"
  by (simp add: keeps_def)

lemma keeps_trans: "keeps n s t \<Longrightarrow> keeps n t u \<Longrightarrow> keeps n s u"
  by (auto simp add: keeps_def)

lemma keeps_mono: "keeps n s t \<Longrightarrow> m \<le> n \<Longrightarrow> keeps m s t"
  by (simp add: keeps_def)

lemma keeps_wr: "n \<le> a \<Longrightarrow> keeps n s (wr s a i v)"
  by (simp add: keeps_def buffers_wr)

lemma keeps_wr_after: "n \<le> a \<Longrightarrow> keeps n s t \<Longrightarrow> keeps n s (wr t a i v)"
  by (auto simp add: keeps_def buffers_wr)

lemma keeps_fold:
  assumes "\<And>x t. keeps n s t \<Longrightarrow> keeps n s (step x t)" and "keeps n s t"
  shows "keeps n s (fold step xs t)"
  using assms(2) by (induction xs arbitrary: t) (simp_all add: assms(1))

lemma keeps_fold_fst:
  assumes "\<And>x t. keeps n s (fst t) \<Longrightarrow> keeps n s (fst (step x t))" and "keeps n s (fst t)"
  shows "keeps n s (fst (fold step xs t))"
  using assms(2) by (induction xs arbitrary: t) (simp_all add: assms(1))

lemma keeps_newCopy: "n \<le> nextFree s \<Longrightarrow> keeps n s (fst (newCopy s a))"
  by (simp add: keeps_def newCopy_def)

lemma newCopy_result [simp]:
  "snd (newCopy s a) = nextFree s" "nextFree (fst (newCopy s a)) = Suc (nextFree s)"
  by (simp_all add: newCopy_def)

lemma keeps_nextFree: "keeps n s t \<Longrightarrow> nextFree s \<le> nextFree t"
  by (simp add: keeps_def)

lemma keeps_if:
  "(c \<Longrightarrow> keeps n s a) \<Longrightarrow> (\<not> c \<Longrightarrow> keeps n s b) \<Longrightarrow> keeps n s (if c then a else b)"
  by simp

lemma keeps_newCopy_after:
  assumes "keeps n s t" and "n \<le> nextFree s"
  shows "keeps n s (fst (newCopy t a))"
proof -
  have "n \<le> nextFree t" using assms by (simp add: keeps_def)
  then have "keeps n t (fst (newCopy t a))" by (rule keeps_newCopy)
  with assms(1) show ?thesis by (rule keeps_trans)
qed

lemma keeps_call:
  assumes "allocatesResult t r" and "keeps n s t" and "n \<le> nextFree s"
  shows "keeps n s (fst r)"
proof -
  have "n \<le> nextFree t" using assms(2,3) by (simp add: keeps_def)
  moreover have "keeps (nextFree t) t (fst r)" using assms(1) by (simp add: allocatesResult_def)
  ultimately have "keeps n t (fst r)" by (rule keeps_mono [rotated])
  with assms(2) show ?thesis by (rule keeps_trans)
qed

text \<open>
  The shape of every function but \<open>sketchEffect\<close>: the result is the first array the
  function allocates, a copy of the input, and all that follows keeps the arrays
  that were there before the call.
\<close>

lemma allocatesResult_via:
  assumes "keeps (nextFree s) (fst (newCopy s a)) s'"
  shows "allocatesResult s (s', img\<lparr>refData := snd (newCopy s a)\<rparr>)"
proof -
  have "keeps (nextFree s) s (fst (newCopy s a))" by (rule keeps_newCopy) simp
  then have "keeps (nextFree s) s s'" using assms by (rule keeps_trans)
  moreover have "nextFree s < nextFree s'" using keeps_nextFree [OF assms] by simp
  ultimately show ?thesis by (simp add: allocatesResult_def)
qed

lemma pair_if: "(if c then (a, r) else (b, r)) = (if c then a else b, r)"
  by simp

lemma toGrayscale_st_allocates: "allocatesResult s (toGrayscale_st s imageData)"
  unfolding toGrayscale_st_def Let_def case_prod_beta
  by (rule allocatesResult_via) (intro keeps_fold keeps_wr_after keeps_refl | simp)+

lemma adjustBrightness_st_allocates: "allocatesResult s (adjustBrightness_st s imageData amount)"
  unfolding adjustBrightness_st_def Let_def case_prod_beta
  by (rule allocatesResult_via) (intro keeps_fold keeps_wr_after keeps_refl | simp)+

lemma adjustContrast_st_allocates: "allocatesResult s (adjustContrast_st s imageData amount)"
  unfolding adjustContrast_st_def Let_def case_prod_beta
  by (rule allocatesResult_via) (intro keeps_fold keeps_wr_after keeps_refl | simp)+

lemma adjustGamma_st_allocates: "allocatesResult s (adjustGamma_st s imageData gammaValue)"
  unfolding adjustGamma_st_def Let_def case_prod_beta
  by (rule allocatesResult_via) (intro keeps_fold keeps_wr_after keeps_refl | simp)+

lemma invert_st_allocates: "allocatesResult s (invert_st s imageData)"
  unfolding invert_st_def Let_def case_prod_beta
  by (rule allocatesResult_via) (intro keeps_fold keeps_wr_after keeps_refl | simp)+

lemma mirrorHorizontal_st_allocates: "allocatesResult s (mirrorHorizontal_st s imageData)"
  unfolding mirrorHorizontal_st_def Let_def case_prod_beta
  by (rule allocatesResult_via) (intro keeps_fold keeps_wr_after keeps_refl | simp)+

lemma edgeEnhance_st_allocates: "allocatesResult s (edgeEnhance_st s imageData strength)"
  unfolding edgeEnhance_st_def Let_def case_prod_beta
  by (rule allocatesResult_via) (intro keeps_fold keeps_wr_after keeps_refl | simp)+

lemma denoise_st_allocates: "allocatesResult s (denoise_st s imageData strength)"
  unfolding denoise_st_def Let_def case_prod_beta
  by (rule allocatesResult_via) (intro keeps_fold keeps_wr_after keeps_refl | simp)+

lemma autoAdjust_st_allocates: "allocatesResult s (autoAdjust_st s imageData)"
  unfolding autoAdjust_st_def Let_def case_prod_beta
  by (rule allocatesResult_via) (intro keeps_if keeps_fold keeps_wr_after keeps_refl | simp)+

lemma adjustLevels_st_allocates:
  "allocatesResult s (adjustLevels_st s imageData blackPoint whitePoint)"
  unfolding adjustLevels_st_def Let_def case_prod_beta pair_if
  by (rule allocatesResult_via) (intro keeps_if keeps_fold keeps_wr_after keeps_refl | simp)+

lemma threshold_st_allocates: "allocatesResult s (threshold_st s imageData thresholdValue)"
  unfolding threshold_st_def Let_def case_prod_beta
  by (rule allocatesResult_via) (intro keeps_fold keeps_wr_after keeps_refl | simp)+

lemma colorCorrection_st_allocates:
  "allocatesResult s (colorCorrection_st s imageData lift compress)"
  unfolding colorCorrection_st_def Let_def case_prod_beta
  by (rule allocatesResult_via) (intro keeps_fold keeps_wr_after keeps_refl | simp)+


lemma keeps_blurStore:
  "n \<le> dst \<Longrightarrow> keeps n s t \<Longrightarrow> keeps n s (blurStore_st t dst idx acc a)"
  unfolding blurStore_st_def Let_def case_prod_beta by (intro keeps_wr_after)

lemma boxBlur_st_allocates: "allocatesResult s (boxBlur_st s imageData radius)"
  unfolding boxBlur_st_def Let_def case_prod_beta
  by (rule allocatesResult_via)
     (intro keeps_fold keeps_blurStore keeps_newCopy_after keeps_refl | simp)+

lemmas keeps_boxBlur = keeps_call [OF boxBlur_st_allocates]
lemmas keeps_toGrayscale = keeps_call [OF toGrayscale_st_allocates]
lemmas keeps_invert = keeps_call [OF invert_st_allocates]

lemma unsharpMask_st_allocates:
  "allocatesResult s (unsharpMask_st s imageData radius amount thresholdValue)"
  unfolding unsharpMask_st_def Let_def case_prod_beta
  by (rule allocatesResult_via)
     (intro keeps_fold keeps_if keeps_wr_after keeps_boxBlur keeps_refl | simp)+

lemma sketchEffect_st_allocates: "allocatesResult s (sketchEffect_st s imageData)"
proof -
  define g where "g = toGrayscale_st s
      \<lparr>refWidth = refWidth imageData, refHeight = refHeight imageData, refData = refData imageData\<rparr>"
  define i where "i = invert_st (fst g) (snd g)"
  define b where "b = boxBlur_st (fst i) (snd i) 5"
  define c where "c = newCopy (fst b) (refData imageData)"
  define step where "step = (\<lambda>j t.
      (let base = rd t (refData (snd g)) j;
           blend = rd t (refData (snd b)) j;
           v = (if blend = 255 then 255
                else clamp ((num base * 255) / (255 - num blend)) 0 255);
           t = wr t (snd c) j (toUint8Clamp v);
           t = wr t (snd c) (j + 1) (toUint8Clamp v);
           t = wr t (snd c) (j + 2) (toUint8Clamp v)
       in wr t (snd c) (j + 3) (rd t (refData imageData) (j + 3))))"
  define final where
    "final = fold step (pixelStarts (length (buffers (fst c) (refData imageData)))) (fst c)"
  have run: "sketchEffect_st s imageData = (final, imageData\<lparr>refData := snd c\<rparr>)"
    unfolding sketchEffect_st_def Let_def case_prod_beta final_def step_def c_def b_def i_def g_def ..
  have kb: "keeps (nextFree s) s (fst b)"
    unfolding b_def i_def g_def
    by (intro keeps_boxBlur keeps_invert keeps_toGrayscale keeps_refl order_refl)
  then have le: "nextFree s \<le> nextFree (fst b)" by (rule keeps_nextFree)
  have kc: "keeps (nextFree s) s (fst c)"
    unfolding c_def using kb by (rule keeps_newCopy_after) simp
  have r: "snd c = nextFree (fst b)" "nextFree (fst c) = Suc (nextFree (fst b))"
    by (simp_all add: c_def)
  have "keeps (nextFree s) (fst c) t \<Longrightarrow> keeps (nextFree s) (fst c) (step j t)" for j t
    unfolding step_def Let_def using le by (intro keeps_wr_after) (simp_all add: r)
  then have kf: "keeps (nextFree s) (fst c) final"
    unfolding final_def by (intro keeps_fold keeps_refl)
  have "keeps (nextFree s) s final" using kc kf by (rule keeps_trans)
  moreover have "nextFree (fst c) \<le> nextFree final" using kf by (rule keeps_nextFree)
  ultimately show ?thesis using le by (simp add: run allocatesResult_def r)
qed

lemma keeps_setPixel:
  "n \<le> a \<Longrightarrow> keeps n s t \<Longrightarrow> keeps n s (setPixel_st t a idx v)"
  unfolding setPixel_st_def Let_def by (intro keeps_wr_after)

lemma keeps_diffusePixel:
  "n \<le> result \<Longrightarrow> keeps n s (fst st)
   \<Longrightarrow> keeps n s (fst (diffusePixel_st distribute w h d result x y st))"
  unfolding diffusePixel_st_def Let_def fst_conv by (intro keeps_wr_after keeps_setPixel)

lemma keeps_orderedPixel:
  "n \<le> result \<Longrightarrow> keeps n s t
   \<Longrightarrow> keeps n s (orderedPixel_st bayerMatrix msize w d result x y t)"
  unfolding orderedPixel_st_def Let_def by (intro keeps_wr_after keeps_setPixel)

lemma errorDiffusion_st_allocates: "allocatesResult s (errorDiffusion_st distribute s imageData)"
  unfolding errorDiffusion_st_def Let_def case_prod_beta
  by (rule allocatesResult_via) (intro keeps_fold_fst keeps_diffusePixel | simp)+

lemma orderedDither_st_allocates:
  "allocatesResult s (orderedDither_st bayerMatrix msize s imageData)"
  unfolding orderedDither_st_def Let_def case_prod_beta
  by (rule allocatesResult_via) (intro keeps_fold keeps_orderedPixel keeps_refl | simp)+

lemma ditheringAlgorithms_st_allocates:
  "allocatesResult s (ditheringAlgorithms_st algorithm s imageData)"
  by (cases algorithm) (simp_all add: errorDiffusion_st_allocates orderedDither_st_allocates)

lemma runTransform_allocates: "allocatesResult s (runTransform transform s imageData)"
  by (cases transform)
     (simp_all add: toGrayscale_st_allocates adjustBrightness_st_allocates
        adjustContrast_st_allocates adjustGamma_st_allocates invert_st_allocates
        mirrorHorizontal_st_allocates unsharpMask_st_allocates edgeEnhance_st_allocates
        denoise_st_allocates autoAdjust_st_allocates adjustLevels_st_allocates
        threshold_st_allocates colorCorrection_st_allocates sketchEffect_st_allocates
        ditheringAlgorithms_st_allocates)


text \<open>
  Claim C9. Whichever adjustment or dithering function is called on a buffer whose
  data array exists in the store, that array holds after the call what it held
  before, byte for byte, and the data array of the returned buffer is another
  array, one that did not exist before the call.
\<close>

theorem transforms_keep_input:
  assumes "refData imageData < nextFree s"
  shows "(case runTransform transform s imageData of
            (s', out) \<Rightarrow>
              buffers s' (refData imageData) = buffers s (refData imageData)
              \<and> refData out \<noteq> refData imageData
              \<and> nextFree s \<le> refData out \<and> refData out < nextFree s')"
  using runTransform_allocates [of s transform imageData] assms
  by (auto simp add: allocatesResult_def keeps_def split: prod.splits)

theorem transforms_keep_input_witness:
  "refData firstImage < nextFree oneArray
   \<and> (case runTransform (AdjustBrightness 5) oneArray firstImage of
         (s', out) \<Rightarrow> buffers s' 0 = [10, 20, 30, 255] \<and> refData out = 1
                      \<and> buffers s' 1 = [15, 25, 35, 255])"
proof -
  have a: "refData firstImage < nextFree oneArray" by (simp add: firstImage_def oneArray_def)
  have "snd (runTransform (AdjustBrightness 5) oneArray firstImage)
        = \<lparr>refWidth = 1, refHeight = 1, refData = 1\<rparr>
      \<and> buffers (fst (runTransform (AdjustBrightness 5) oneArray firstImage)) 1
        = [15, 25, 35, 255]"
    by (simp add: adjustBrightness_st_def newCopy_def wr_def rd_def pixelStarts_def clamp_def
        toUint8Clamp_def roundHalfEven_def num_def firstImage_def oneArray_def Let_def)
  then show ?thesis
    using transforms_keep_input [OF a, of "AdjustBrightness 5"] a
    by (simp add: firstImage_def oneArray_def split: prod.splits)
qed

section \<open>The store functions compute what the functions on contents compute\<close>

lemma writes_fold:
  assumes "\<And>x t res. writes r s t res \<Longrightarrow> writes r s (stepS x t) (stepP x res)"
    and "writes r s t res"
  shows "writes r s (fold stepS xs t) (fold stepP xs res)"
  using assms(2) by (induction xs arbitrary: t res) (simp_all add: assms(1))

lemma writes_wr:
  assumes "writes r s t res" and "writes r s t res \<Longrightarrow> v = v'"
  shows "writes r s (wr t r i v) (res[i := v'])"
  using assms by (simp add: writes_def buffers_wr)

lemma writes_rd: "writes r s t res \<Longrightarrow> a \<noteq> r \<Longrightarrow> rd t a i = buffers s a ! i"
  by (simp add: writes_def rd_def)

lemma rd_wr_other: "b \<noteq> a \<Longrightarrow> rd (wr t a i v) b j = rd t b j"
  by (simp add: rd_def buffers_wr)

lemma buffers_wr_other: "b \<noteq> a \<Longrightarrow> buffers (wr t a i v) b = buffers t b"
  by (simp add: buffers_wr)

lemma writes_buffers: "writes r s t res \<Longrightarrow> a \<noteq> r \<Longrightarrow> buffers t a = buffers s a"
  by (simp add: writes_def)

lemma writes_newCopy:
  "writes (nextFree s) (fst (newCopy s a)) (fst (newCopy s a)) (buffers s a)"
  by (simp add: writes_def newCopy_def)

lemma newCopy_buffers_old: "b < nextFree s \<Longrightarrow> buffers (fst (newCopy s a)) b = buffers s b"
  by (simp add: newCopy_def)

lemma writes_if:
  "(c \<Longrightarrow> writes r s a a') \<Longrightarrow> (\<not> c \<Longrightarrow> writes r s b b')
   \<Longrightarrow> writes r s (if c then a else b) (if c then a' else b')"
  by simp

lemma image_if:
  "(if c then \<lparr>width = w, height = h, data = a\<rparr> else \<lparr>width = w, height = h, data = b\<rparr>)
     = \<lparr>width = w, height = h, data = (if c then a else b)\<rparr>"
  by simp

lemma newCopy_snd: "snd (newCopy s a) = nextFree s"
  by (simp add: newCopy_def)

lemma computes_from_writes:
  assumes "writes r s1 t res" and "w = refWidth img" and "h = refHeight img"
  shows "imageAt t (img\<lparr>refData := r\<rparr>) = \<lparr>width = w, height = h, data = res\<rparr>"
  using assms by (simp add: writes_def imageAt_def)

lemma imageAt_simps [simp]:
  "width (imageAt s r) = refWidth r" "height (imageAt s r) = refHeight r"
  "data (imageAt s r) = buffers s (refData r)"
  by (simp_all add: imageAt_def)

lemma toGrayscale_st_computes:
  assumes "refData imageData < nextFree s"
  shows "imageAt (fst (toGrayscale_st s imageData)) (snd (toGrayscale_st s imageData))
         = toGrayscale (imageAt s imageData)"
proof -
  have ne: "refData imageData \<noteq> nextFree s" using assms by simp
  note old = newCopy_buffers_old [OF assms]
  show ?thesis
    unfolding toGrayscale_st_def toGrayscale_def Let_def case_prod_beta fst_conv snd_conv
      imageAt_simps newCopy_snd old
    by (rule computes_from_writes [where ?s1.0 = "fst (newCopy s (refData imageData))"])
       (intro writes_fold writes_wr writes_newCopy
        | simp add: writes_rd rd_wr_other writes_buffers buffers_wr_other ne old cong: if_cong)+
qed

lemma adjustBrightness_st_computes:
  assumes "refData imageData < nextFree s"
  shows "imageAt (fst (adjustBrightness_st s imageData amount)) (snd (adjustBrightness_st s imageData amount))
         = adjustBrightness (imageAt s imageData) amount"
proof -
  have ne: "refData imageData \<noteq> nextFree s" using assms by simp
  note old = newCopy_buffers_old [OF assms]
  show ?thesis
    unfolding adjustBrightness_st_def adjustBrightness_def Let_def case_prod_beta fst_conv snd_conv
      imageAt_simps newCopy_snd old
    by (rule computes_from_writes [where ?s1.0 = "fst (newCopy s (refData imageData))"])
       (intro writes_fold writes_wr writes_newCopy
        | simp add: writes_rd rd_wr_other writes_buffers buffers_wr_other ne old cong: if_cong)+
qed

lemma adjustContrast_st_computes:
  assumes "refData imageData < nextFree s"
  shows "imageAt (fst (adjustContrast_st s imageData amount)) (snd (adjustContrast_st s imageData amount))
         = adjustContrast (imageAt s imageData) amount"
proof -
  have ne: "refData imageData \<noteq> nextFree s" using assms by simp
  note old = newCopy_buffers_old [OF assms]
  show ?thesis
    unfolding adjustContrast_st_def adjustContrast_def Let_def case_prod_beta fst_conv snd_conv
      imageAt_simps newCopy_snd old
    by (rule computes_from_writes [where ?s1.0 = "fst (newCopy s (refData imageData))"])
       (intro writes_fold writes_wr writes_newCopy
        | simp add: writes_rd rd_wr_other writes_buffers buffers_wr_other ne old cong: if_cong)+
qed

lemma adjustGamma_st_computes:
  assumes "refData imageData < nextFree s"
  shows "imageAt (fst (adjustGamma_st s imageData gammaValue)) (snd (adjustGamma_st s imageData gammaValue))
         = adjustGamma (imageAt s imageData) gammaValue"
proof -
  have ne: "refData imageData \<noteq> nextFree s" using assms by simp
  note old = newCopy_buffers_old [OF assms]
  show ?thesis
    unfolding adjustGamma_st_def adjustGamma_def Let_def case_prod_beta fst_conv snd_conv
      imageAt_simps newCopy_snd old
    by (rule computes_from_writes [where ?s1.0 = "fst (newCopy s (refData imageData))"])
       (intro writes_fold writes_wr writes_newCopy
        | simp add: writes_rd rd_wr_other writes_buffers buffers_wr_other ne old cong: if_cong)+
qed

lemma invert_st_computes:
  assumes "refData imageData < nextFree s"
  shows "imageAt (fst (invert_st s imageData)) (snd (invert_st s imageData))
         = invert (imageAt s imageData)"
proof -
  have ne: "refData imageData \<noteq> nextFree s" using assms by simp
  note old = newCopy_buffers_old [OF assms]
  show ?thesis
    unfolding invert_st_def invert_def Let_def case_prod_beta fst_conv snd_conv
      imageAt_simps newCopy_snd old
    by (rule computes_from_writes [where ?s1.0 = "fst (newCopy s (refData imageData))"])
       (intro writes_fold writes_wr writes_newCopy
        | simp add: writes_rd rd_wr_other writes_buffers buffers_wr_other ne old cong: if_cong)+
qed

lemma mirrorHorizontal_st_computes:
  assumes "refData imageData < nextFree s"
  shows "imageAt (fst (mirrorHorizontal_st s imageData)) (snd (mirrorHorizontal_st s imageData))
         = mirrorHorizontal (imageAt s imageData)"
proof -
  have ne: "refData imageData \<noteq> nextFree s" using assms by simp
  note old = newCopy_buffers_old [OF assms]
  show ?thesis
    unfolding mirrorHorizontal_st_def mirrorHorizontal_def Let_def case_prod_beta fst_conv snd_conv
      imageAt_simps newCopy_snd old
    by (rule computes_from_writes [where ?s1.0 = "fst (newCopy s (refData imageData))"])
       (intro writes_fold writes_wr writes_newCopy
        | simp add: writes_rd rd_wr_other writes_buffers buffers_wr_other ne old cong: if_cong)+
qed

lemma edgeEnhance_st_computes:
  assumes "refData imageData < nextFree s"
  shows "imageAt (fst (edgeEnhance_st s imageData strength)) (snd (edgeEnhance_st s imageData strength))
         = edgeEnhance (imageAt s imageData) strength"
proof -
  have ne: "refData imageData \<noteq> nextFree s" using assms by simp
  note old = newCopy_buffers_old [OF assms]
  show ?thesis
    unfolding edgeEnhance_st_def edgeEnhance_def Let_def case_prod_beta fst_conv snd_conv
      imageAt_simps newCopy_snd old
    by (rule computes_from_writes [where ?s1.0 = "fst (newCopy s (refData imageData))"])
       (intro writes_fold writes_wr writes_newCopy
        | simp add: writes_rd rd_wr_other writes_buffers buffers_wr_other ne old cong: if_cong)+
qed

lemma denoise_st_computes:
  assumes "refData imageData < nextFree s"
  shows "imageAt (fst (denoise_st s imageData strength)) (snd (denoise_st s imageData strength))
         = denoise (imageAt s imageData) strength"
proof -
  have ne: "refData imageData \<noteq> nextFree s" using assms by simp
  note old = newCopy_buffers_old [OF assms]
  show ?thesis
    unfolding denoise_st_def denoise_def Let_def case_prod_beta fst_conv snd_conv
      imageAt_simps newCopy_snd old
    by (rule computes_from_writes [where ?s1.0 = "fst (newCopy s (refData imageData))"])
       (intro writes_fold writes_wr writes_newCopy
        | simp add: writes_rd rd_wr_other writes_buffers buffers_wr_other ne old cong: if_cong)+
qed

lemma autoAdjust_st_computes:
  assumes "refData imageData < nextFree s"
  shows "imageAt (fst (autoAdjust_st s imageData)) (snd (autoAdjust_st s imageData))
         = autoAdjust (imageAt s imageData)"
proof -
  have ne: "refData imageData \<noteq> nextFree s" using assms by simp
  note old = newCopy_buffers_old [OF assms]
  show ?thesis
    unfolding autoAdjust_st_def autoAdjust_def Let_def case_prod_beta fst_conv snd_conv
      imageAt_simps newCopy_snd old
    by (rule computes_from_writes [where ?s1.0 = "fst (newCopy s (refData imageData))"])
       (intro writes_fold writes_wr writes_newCopy writes_if
        | simp add: writes_rd rd_wr_other writes_buffers buffers_wr_other ne old cong: if_cong)+
qed

lemma adjustLevels_st_computes:
  assumes "refData imageData < nextFree s"
  shows "imageAt (fst (adjustLevels_st s imageData blackPoint whitePoint)) (snd (adjustLevels_st s imageData blackPoint whitePoint))
         = adjustLevels (imageAt s imageData) blackPoint whitePoint"
proof -
  have ne: "refData imageData \<noteq> nextFree s" using assms by simp
  note old = newCopy_buffers_old [OF assms]
  show ?thesis
    unfolding adjustLevels_st_def adjustLevels_def Let_def case_prod_beta pair_if image_if fst_conv snd_conv
      imageAt_simps newCopy_snd old
    by (rule computes_from_writes [where ?s1.0 = "fst (newCopy s (refData imageData))"])
       (intro writes_fold writes_wr writes_newCopy writes_if
        | simp add: writes_rd rd_wr_other writes_buffers buffers_wr_other ne old cong: if_cong)+
qed

lemma threshold_st_computes:
  assumes "refData imageData < nextFree s"
  shows "imageAt (fst (threshold_st s imageData thresholdValue)) (snd (threshold_st s imageData thresholdValue))
         = threshold (imageAt s imageData) thresholdValue"
proof -
  have ne: "refData imageData \<noteq> nextFree s" using assms by simp
  note old = newCopy_buffers_old [OF assms]
  show ?thesis
    unfolding threshold_st_def threshold_def Let_def case_prod_beta fst_conv snd_conv
      imageAt_simps newCopy_snd old
    by (rule computes_from_writes [where ?s1.0 = "fst (newCopy s (refData imageData))"])
       (intro writes_fold writes_wr writes_newCopy
        | simp add: writes_rd rd_wr_other writes_buffers buffers_wr_other ne old cong: if_cong)+
qed

lemma colorCorrection_st_computes:
  assumes "refData imageData < nextFree s"
  shows "imageAt (fst (colorCorrection_st s imageData lift compress)) (snd (colorCorrection_st s imageData lift compress))
         = colorCorrection (imageAt s imageData) lift compress"
proof -
  have ne: "refData imageData \<noteq> nextFree s" using assms by simp
  note old = newCopy_buffers_old [OF assms]
  show ?thesis
    unfolding colorCorrection_st_def colorCorrection_def Let_def case_prod_beta fst_conv snd_conv
      imageAt_simps newCopy_snd old
    by (rule computes_from_writes [where ?s1.0 = "fst (newCopy s (refData imageData))"])
       (intro writes_fold writes_wr writes_newCopy
        | simp add: writes_rd rd_wr_other writes_buffers buffers_wr_other ne old cong: if_cong)+
qed


lemma writes_refl: "writes r s s (buffers s r)"
  by (simp add: writes_def)

lemma writes_blurStore:
  assumes "writes r s t res" and "writes r s t res \<Longrightarrow> acc = acc'"
    and "writes r s t res \<Longrightarrow> a = a'"
  shows "writes r s (blurStore_st t r idx acc a) (blurStore res idx acc' a')"
  using assms unfolding blurStore_st_def blurStore_def Let_def
  by (auto simp add: writes_def buffers_wr split: prod.splits)

lemma boxBlur_st_computes:
  assumes "refData imageData < nextFree s"
  shows "imageAt (fst (boxBlur_st s imageData radius)) (snd (boxBlur_st s imageData radius))
         = boxBlur (imageAt s imageData) radius"
proof -
  define d w h where "d = refData imageData" and "w = refWidth imageData"
    and "h = refHeight imageData"
  define s1 r where "s1 = fst (newCopy s d)" and "r = snd (newCopy s d)"
  define s2 tmp where "s2 = fst (newCopy s1 d)" and "tmp = snd (newCopy s1 d)"
  define tempP where "tempP = fold (\<lambda>y. fold (\<lambda>x temp.
       (let acc = blurSum (buffers s d)
              (\<lambda>dx. let nx = int x + dx in
                    if nx \<ge> 0 \<and> nx < int w then Some ((y * w + nat nx) * 4) else None)
              radius;
            idx = (y * w + x) * 4
        in blurStore temp idx acc (buffers s d ! (idx + 3))))
     [0..<w]) [0..<h] (buffers s d)"
  define resP where "resP = fold (\<lambda>y. fold (\<lambda>x result.
       (let acc = blurSum tempP
              (\<lambda>dy. let ny = int y + dy in
                    if ny \<ge> 0 \<and> ny < int h then Some ((nat ny * w + x) * 4) else None)
              radius;
            idx = (y * w + x) * 4
        in blurStore result idx acc (tempP ! (idx + 3))))
     [0..<w]) [0..<h] (buffers s d)"
  define t1 where "t1 = fold (\<lambda>y. fold (\<lambda>x t.
       (let acc = blurSum (buffers t d)
              (\<lambda>dx. let nx = int x + dx in
                    if nx \<ge> 0 \<and> nx < int w then Some ((y * w + nat nx) * 4) else None)
              radius;
            idx = (y * w + x) * 4
        in blurStore_st t tmp idx acc (rd t d (idx + 3))))
     [0..<w]) [0..<h] s2"
  define t2 where "t2 = fold (\<lambda>y. fold (\<lambda>x t.
       (let acc = blurSum (buffers t tmp)
              (\<lambda>dy. let ny = int y + dy in
                    if ny \<ge> 0 \<and> ny < int h then Some ((nat ny * w + x) * 4) else None)
              radius;
            idx = (y * w + x) * 4
        in blurStore_st t r idx acc (rd t tmp (idx + 3))))
     [0..<w]) [0..<h] t1"
  have run: "boxBlur_st s imageData radius = (t2, imageData\<lparr>refData := r\<rparr>)"
    unfolding boxBlur_st_def Let_def case_prod_beta t2_def t1_def s2_def tmp_def s1_def r_def
      d_def w_def h_def ..
  have pure: "boxBlur (imageAt s imageData) radius = \<lparr>width = w, height = h, data = resP\<rparr>"
    unfolding boxBlur_def Let_def imageAt_simps resP_def tempP_def d_def w_def h_def ..
  have ne: "d \<noteq> r" "d \<noteq> tmp" "r \<noteq> tmp"
    using assms by (simp_all add: d_def r_def tmp_def s1_def newCopy_def)
  have b2: "buffers s2 d = buffers s d" "buffers s2 r = buffers s d" "buffers s2 tmp = buffers s d"
    using assms by (simp_all add: s2_def s1_def r_def tmp_def d_def newCopy_def)
  have "writes tmp s2 s2 (buffers s d)" using writes_refl [of tmp s2] by (simp add: b2)
  then have w1: "writes tmp s2 t1 tempP"
    unfolding t1_def tempP_def Let_def using ne
    by (intro writes_fold writes_blurStore
        | simp add: writes_rd writes_buffers b2 cong: if_cong)+
  then have c1: "buffers t1 tmp = tempP" "buffers t1 d = buffers s d" "buffers t1 r = buffers s d"
    using ne by (simp_all add: writes_def b2)
  have "writes r t1 t1 (buffers s d)" using writes_refl [of r t1] by (simp add: c1)
  then have w2: "writes r t1 t2 resP"
    unfolding t2_def resP_def Let_def using ne
    by (intro writes_fold writes_blurStore
        | simp add: writes_rd writes_buffers c1 cong: if_cong)+
  show ?thesis
    unfolding run pure fst_conv snd_conv using w2
    by (rule computes_from_writes) (simp_all add: w_def h_def)
qed


lemma allocatesResult_old:
  assumes "allocatesResult s r" and "a < nextFree s"
  shows "buffers (fst r) a = buffers s a" and "refData (snd r) \<noteq> a"
  using assms by (simp_all add: allocatesResult_def keeps_def)

lemma unsharpMask_st_computes:
  assumes "refData imageData < nextFree s"
  shows "imageAt (fst (unsharpMask_st s imageData radius amount thresholdValue))
           (snd (unsharpMask_st s imageData radius amount thresholdValue))
         = unsharpMask (imageAt s imageData) radius amount thresholdValue"
proof -
  let ?d = "refData imageData"
  let ?s1 = "fst (newCopy s ?d)"
  let ?b = "boxBlur_st ?s1 imageData radius"
  have d1: "?d < nextFree ?s1" and r1: "nextFree s < nextFree ?s1" using assms by simp_all
  have old1: "buffers ?s1 ?d = buffers s ?d" "buffers ?s1 (nextFree s) = buffers s ?d"
    using assms by (simp_all add: newCopy_def)
  have same: "imageAt ?s1 imageData = imageAt s imageData" by (simp add: imageAt_def old1)
  have "data (imageAt (fst ?b) (snd ?b)) = data (boxBlur (imageAt ?s1 imageData) radius)"
    using boxBlur_st_computes [OF d1, of radius] by (rule arg_cong)
  then have blurred:
    "buffers (fst ?b) (refData (snd ?b)) = data (boxBlur (imageAt s imageData) radius)"
    by (simp only: same imageAt_simps)
  have old2: "buffers (fst ?b) ?d = buffers s ?d" "buffers (fst ?b) (nextFree s) = buffers s ?d"
    using allocatesResult_old(1) [OF boxBlur_st_allocates d1]
      allocatesResult_old(1) [OF boxBlur_st_allocates r1] by (simp_all add: old1)
  have ne: "?d \<noteq> nextFree s" "refData (snd ?b) \<noteq> nextFree s"
    using assms allocatesResult_old(2) [OF boxBlur_st_allocates r1] by simp_all
  have w0: "writes (nextFree s) (fst ?b) (fst ?b) (buffers s ?d)"
    using writes_refl [of "nextFree s" "fst ?b"] by (simp add: old2)
  show ?thesis
    unfolding unsharpMask_st_def unsharpMask_def Let_def case_prod_beta fst_conv snd_conv
      imageAt_simps newCopy_snd old2
    by (rule computes_from_writes [where ?s1.0 = "fst ?b"])
       (intro writes_fold writes_if writes_wr w0 conjI impI
        | simp add: writes_rd rd_wr_other writes_buffers buffers_wr_other ne old2 blurred
            cong: if_cong)+
qed


lemma allocatesResult_allocated:
  "allocatesResult s r \<Longrightarrow> refData (snd r) < nextFree (fst r)"
  "allocatesResult s r \<Longrightarrow> nextFree s \<le> nextFree (fst r)"
  by (simp_all add: allocatesResult_def keeps_def)

lemma sketchEffect_st_computes:
  assumes "refData imageData < nextFree s"
  shows "imageAt (fst (sketchEffect_st s imageData)) (snd (sketchEffect_st s imageData))
         = sketchEffect (imageAt s imageData)"
proof -
  let ?d = "refData imageData"
  let ?g = "toGrayscale_st s
      \<lparr>refWidth = refWidth imageData, refHeight = refHeight imageData, refData = ?d\<rparr>"
  let ?i = "invert_st (fst ?g) (snd ?g)"
  let ?b = "boxBlur_st (fst ?i) (snd ?i) 5"
  let ?c = "newCopy (fst ?b) ?d"
  note ag = toGrayscale_st_allocates [of s
      "\<lparr>refWidth = refWidth imageData, refHeight = refHeight imageData, refData = ?d\<rparr>"]
  note ai = invert_st_allocates [of "fst ?g" "snd ?g"]
  note ab = boxBlur_st_allocates [of "fst ?i" "snd ?i" 5]
  have dg: "?d < nextFree (fst ?g)" using assms allocatesResult_allocated(2) [OF ag] by simp
  have di: "?d < nextFree (fst ?i)" using dg allocatesResult_allocated(2) [OF ai] by simp
  have db: "?d < nextFree (fst ?b)" using di allocatesResult_allocated(2) [OF ab] by simp
  have gg: "refData (snd ?g) < nextFree (fst ?g)" by (rule allocatesResult_allocated(1) [OF ag])
  have gi: "refData (snd ?g) < nextFree (fst ?i)"
    using gg allocatesResult_allocated(2) [OF ai] by simp
  have gb: "refData (snd ?g) < nextFree (fst ?b)"
    using gi allocatesResult_allocated(2) [OF ab] by simp
  have ii: "refData (snd ?i) < nextFree (fst ?i)" by (rule allocatesResult_allocated(1) [OF ai])
  have bb: "refData (snd ?b) < nextFree (fst ?b)" by (rule allocatesResult_allocated(1) [OF ab])
  have input: "buffers (fst ?b) ?d = buffers s ?d"
    using allocatesResult_old(1) [OF ab di] allocatesResult_old(1) [OF ai dg]
      allocatesResult_old(1) [OF ag assms] by simp
  have "data (imageAt (fst ?g) (snd ?g)) = data (toGrayscale (imageAt s imageData))"
    using toGrayscale_st_computes [of
        "\<lparr>refWidth = refWidth imageData, refHeight = refHeight imageData, refData = ?d\<rparr>" s]
      assms by (simp add: imageAt_def)
  then have gray: "buffers (fst ?b) (refData (snd ?g)) = data (toGrayscale (imageAt s imageData))"
    using allocatesResult_old(1) [OF ab gi] allocatesResult_old(1) [OF ai gg] by simp
  have "imageAt (fst ?g) (snd ?g) = toGrayscale (imageAt s imageData)"
    using toGrayscale_st_computes [of
        "\<lparr>refWidth = refWidth imageData, refHeight = refHeight imageData, refData = ?d\<rparr>" s]
      assms by (simp add: imageAt_def)
  then have "imageAt (fst ?i) (snd ?i) = invert (toGrayscale (imageAt s imageData))"
    using invert_st_computes [OF gg] by simp
  then have "imageAt (fst ?b) (snd ?b) = boxBlur (invert (toGrayscale (imageAt s imageData))) 5"
    using boxBlur_st_computes [OF ii, of 5] by simp
  then have "data (imageAt (fst ?b) (snd ?b))
      = data (boxBlur (invert (toGrayscale (imageAt s imageData))) 5)"
    by (rule arg_cong)
  then have blurred: "buffers (fst ?b) (refData (snd ?b))
      = data (boxBlur (invert (toGrayscale (imageAt s imageData))) 5)"
    by (simp only: imageAt_simps)
  have ne: "?d \<noteq> nextFree (fst ?b)" "refData (snd ?g) \<noteq> nextFree (fst ?b)"
    "refData (snd ?b) \<noteq> nextFree (fst ?b)"
    using db gb bb by simp_all
  have c: "buffers (fst ?c) ?d = buffers s ?d"
    "buffers (fst ?c) (refData (snd ?g)) = data (toGrayscale (imageAt s imageData))"
    "buffers (fst ?c) (refData (snd ?b))
       = data (boxBlur (invert (toGrayscale (imageAt s imageData))) 5)"
    using db gb bb input gray blurred by (simp_all add: newCopy_buffers_old)
  have w0: "writes (nextFree (fst ?b)) (fst ?c) (fst ?c) (buffers s ?d)"
    using writes_refl [of "nextFree (fst ?b)" "fst ?c"] input by (simp add: newCopy_def)
  have whole: "\<lparr>width = refWidth imageData, height = refHeight imageData,
      data = buffers s ?d\<rparr> = imageAt s imageData"
    by (simp add: imageAt_def)
  show ?thesis
    unfolding sketchEffect_st_def sketchEffect_def Let_def case_prod_beta fst_conv snd_conv
      imageAt_simps newCopy_snd whole c
    by (rule computes_from_writes [where ?s1.0 = "fst ?c"])
       (intro writes_fold writes_wr w0 conjI impI
        | simp add: writes_rd rd_wr_other writes_buffers buffers_wr_other ne c cong: if_cong)+
qed


lemma orderedDither_st_computes:
  assumes "refData imageData < nextFree s"
  shows "imageAt (fst (orderedDither_st bayerMatrix msize s imageData))
           (snd (orderedDither_st bayerMatrix msize s imageData))
         = orderedDither bayerMatrix msize (imageAt s imageData)"
proof -
  have ne: "refData imageData \<noteq> nextFree s" using assms by simp
  note old = newCopy_buffers_old [OF assms]
  show ?thesis
    unfolding orderedDither_st_def orderedDither_def orderedPixel_st_def orderedPixel_def
      setPixel_st_def setPixel_def Let_def case_prod_beta fst_conv snd_conv
      imageAt_simps newCopy_snd old
    by (rule computes_from_writes [where ?s1.0 = "fst (newCopy s (refData imageData))"])
       (intro writes_fold writes_wr writes_newCopy
        | simp add: writes_rd rd_wr_other writes_buffers buffers_wr_other ne old cong: if_cong)+
qed

lemma related_fold:
  assumes "\<And>x a b. R a b \<Longrightarrow> R (f x a) (g x b)" and "R a b"
  shows "R (fold f xs a) (fold g xs b)"
  using assms(2) by (induction xs arbitrary: a b) (simp_all add: assms(1))

lemma diffusePixel_st_related:
  assumes "writes r s (fst st) (snd st') \<and> snd st = fst st'" and "d \<noteq> r"
  shows "writes r s (fst (diffusePixel_st distribute w h d r x y st))
           (snd (diffusePixel distribute w h (buffers s d) x y st'))
         \<and> snd (diffusePixel_st distribute w h d r x y st)
           = fst (diffusePixel distribute w h (buffers s d) x y st')"
  using assms
  unfolding diffusePixel_st_def diffusePixel_def setPixel_st_def setPixel_def Let_def
    fst_conv snd_conv
  by (intro conjI writes_wr
      | simp add: writes_rd rd_wr_other writes_buffers buffers_wr_other cong: if_cong)+

lemma errorDiffusion_st_computes:
  assumes "refData imageData < nextFree s"
  shows "imageAt (fst (errorDiffusion_st distribute s imageData))
           (snd (errorDiffusion_st distribute s imageData))
         = errorDiffusion distribute (imageAt s imageData)"
proof -
  let ?d = "refData imageData"
  let ?w = "refWidth imageData"
  let ?h = "refHeight imageData"
  let ?s1 = "fst (newCopy s ?d)"
  let ?errors = "map (\<lambda>i. fround (getGray (buffers s ?d) (i * 4))) [0..<?w * ?h]"
  let ?R = "\<lambda>st st'. writes (nextFree s) ?s1 (fst st) (snd st') \<and> snd st = fst st'"
  have ne: "?d \<noteq> nextFree s" using assms by simp
  note old = newCopy_buffers_old [OF assms]
  have start: "?R (?s1, ?errors) (?errors, buffers s ?d)"
    using writes_newCopy [of s ?d] by simp
  have "?R (fold (\<lambda>y. fold (\<lambda>x. diffusePixel_st distribute ?w ?h ?d (nextFree s) x y) [0..<?w])
              [0..<?h] (?s1, ?errors))
           (fold (\<lambda>y. fold (\<lambda>x. diffusePixel distribute ?w ?h (buffers ?s1 ?d) x y) [0..<?w])
              [0..<?h] (?errors, buffers s ?d))"
    by (rule related_fold [where R = ?R, OF _ start], rule related_fold [where R = ?R])
       (rule diffusePixel_st_related [OF _ ne])
  then have "writes (nextFree s) ?s1
      (fst (fold (\<lambda>y. fold (\<lambda>x. diffusePixel_st distribute ?w ?h ?d (nextFree s) x y) [0..<?w])
              [0..<?h] (?s1, ?errors)))
      (snd (fold (\<lambda>y. fold (\<lambda>x. diffusePixel distribute ?w ?h (buffers s ?d) x y) [0..<?w])
              [0..<?h] (?errors, buffers s ?d)))"
    by (simp only: old)
  then show ?thesis
    unfolding errorDiffusion_st_def errorDiffusion_def Let_def case_prod_beta fst_conv snd_conv
      imageAt_simps newCopy_snd old
    by (rule computes_from_writes) simp_all
qed


lemma ditheringAlgorithms_st_computes:
  assumes "refData imageData < nextFree s"
  shows "imageAt (fst (ditheringAlgorithms_st algorithm s imageData))
           (snd (ditheringAlgorithms_st algorithm s imageData))
         = ditheringAlgorithms algorithm (imageAt s imageData)"
  by (cases algorithm)
     (simp_all only: ditheringAlgorithms_st.simps ditheringAlgorithms.simps
        floydSteinberg_def jarvisJudiceNinke_def stucki_def atkinson_def sierra_def
        sierraTwoRow_def burkes_def bayerOrdered_def bayerOrdered4x4_def
        errorDiffusion_st_computes [OF assms] orderedDither_st_computes [OF assms])

text \<open>
  Every entry of the two tables, run on the store with its input in an allocated
  array, leaves in the array it returns the image that the function on array
  contents computes from the input.
\<close>

lemma runTransform_computes:
  assumes "refData imageData < nextFree s"
  shows "imageAt (fst (runTransform f s imageData)) (snd (runTransform f s imageData))
         = applyTransform f (imageAt s imageData)"
  by (cases f)
     (simp_all only: runTransform.simps applyTransform.simps
        toGrayscale_st_computes [OF assms] adjustBrightness_st_computes [OF assms]
        adjustContrast_st_computes [OF assms] adjustGamma_st_computes [OF assms]
        invert_st_computes [OF assms] mirrorHorizontal_st_computes [OF assms]
        unsharpMask_st_computes [OF assms] edgeEnhance_st_computes [OF assms]
        denoise_st_computes [OF assms] autoAdjust_st_computes [OF assms]
        adjustLevels_st_computes [OF assms] threshold_st_computes [OF assms]
        colorCorrection_st_computes [OF assms] sketchEffect_st_computes [OF assms]
        ditheringAlgorithms_st_computes [OF assms])

end
